theory Spec2Isabelle
  imports Complex_Main
begin

section \<open>Data model (gpu\_service/src/models/schemas.py)\<close>

text \<open>
  Numbers. The boxes and the IoU computation are Python floats; their arithmetic is
  modelled with the rounding of IEEE binary64 (\<open>fl64\<close> below) after every operation.
  The progress values of a job are Python floats as well and are rounded in the same way.
  The arithmetic of the Kalman filter (numpy arrays) and the confidence reported by
  \<open>predict\<close> are modelled in exact reals.
\<close>

record BoundingBox =
  bb_x :: real
  bb_y :: real
  bb_width :: real
  bb_height :: real
  bb_confidence :: real

section \<open>Floating-point rounding\<close>

text \<open>
  \<open>rhe\<close> rounds a real to the nearest integer, a tie to the even one. \<open>fl64\<close>
  rounds a real to the nearest number with a 53-bit significand, a tie to the even
  significand: the rounding of IEEE binary64 with the exponent range left unbounded (it is
  the rounding of Python floats for results of magnitude between \<open>2^-1022\<close> and
  \<open>2^1024\<close>; overflow, subnormal numbers and NaN are not modelled).
\<close>

definition rhe :: "real \<Rightarrow> int" where
  "rhe x = (let f = \<lfloor>x\<rfloor>; d = x - of_int f
            in if d < 1/2 then f else if d > 1/2 then f + 1 else if even f then f else f + 1)"

definition fl64 :: "real \<Rightarrow> real" where
  "fl64 x = (if x = 0 then 0
             else (let u = 2 powi (\<lfloor>log 2 \<bar>x\<bar>\<rfloor> - 52) in of_int (rhe (x / u)) * u))"

section \<open>IoU (ByteTracker.\_compute\_iou)\<close>

text \<open>
  The function with the rounding \<open>fl\<close> applied to the result of every arithmetic
  operation, in the order in which Python evaluates them; \<open>max\<close>, \<open>min\<close> and the
  comparisons are exact. With \<open>fl64\<close> and boxes whose fields are binary64 numbers this
  is the value that the method returns.
\<close>

definition compute_iou_fl :: "(real \<Rightarrow> real) \<Rightarrow> BoundingBox \<Rightarrow> BoundingBox \<Rightarrow> real" where
  "compute_iou_fl fl box1 box2 =
    (let x1_min = fl (bb_x box1 - fl (bb_width box1 / 2));
         y1_min = fl (bb_y box1 - fl (bb_height box1 / 2));
         x1_max = fl (bb_x box1 + fl (bb_width box1 / 2));
         y1_max = fl (bb_y box1 + fl (bb_height box1 / 2));
         x2_min = fl (bb_x box2 - fl (bb_width box2 / 2));
         y2_min = fl (bb_y box2 - fl (bb_height box2 / 2));
         x2_max = fl (bb_x box2 + fl (bb_width box2 / 2));
         y2_max = fl (bb_y box2 + fl (bb_height box2 / 2));
         inter_x_min = max x1_min x2_min;
         inter_y_min = max y1_min y2_min;
         inter_x_max = min x1_max x2_max;
         inter_y_max = min y1_max y2_max
     in if inter_x_max \<le> inter_x_min \<or> inter_y_max \<le> inter_y_min then 0
        else
          (let inter_area = fl (fl (inter_x_max - inter_x_min) * fl (inter_y_max - inter_y_min));
               area1 = fl (bb_width box1 * bb_height box1);
               area2 = fl (bb_width box2 * bb_height box2);
               union_area = fl (fl (area1 + area2) - inter_area)
           in if union_area \<le> 0 then 0 else fl (inter_area / union_area)))"

definition compute_iou :: "BoundingBox \<Rightarrow> BoundingBox \<Rightarrow> real" where
  "compute_iou box1 box2 = compute_iou_fl fl64 box1 box2"

section \<open>numpy arrays as lists of reals\<close>

type_synonym vec = "real list"
type_synonym mat = "real list list"

definition eye :: "nat \<Rightarrow> mat" where
  "eye n = map (\<lambda>i. map (\<lambda>j. if i = j then 1 else 0) [0..<n]) [0..<n]"

definition zeros :: "nat \<Rightarrow> nat \<Rightarrow> mat" where
  "zeros r c = replicate r (replicate c 0)"

definition mat_scale :: "real \<Rightarrow> mat \<Rightarrow> mat" where
  "mat_scale k m = map (map (\<lambda>v. v * k)) m"

definition mat_add :: "mat \<Rightarrow> mat \<Rightarrow> mat" where
  "mat_add a b = map2 (map2 (+)) a b"

definition mat_sub :: "mat \<Rightarrow> mat \<Rightarrow> mat" where
  "mat_sub a b = map2 (map2 (-)) a b"

definition vec_add :: "vec \<Rightarrow> vec \<Rightarrow> vec" where
  "vec_add u v = map2 (+) u v"

definition vec_sub :: "vec \<Rightarrow> vec \<Rightarrow> vec" where
  "vec_sub u v = map2 (-) u v"

definition dot :: "vec \<Rightarrow> vec \<Rightarrow> real" where
  "dot u v = sum_list (map2 (*) u v)"

definition mat_T :: "mat \<Rightarrow> mat" where
  "mat_T m = (case m of [] \<Rightarrow> [] | r # _ \<Rightarrow> map (\<lambda>j. map (\<lambda>row. row ! j) m) [0..<length r])"

definition mat_vec :: "mat \<Rightarrow> vec \<Rightarrow> vec" where
  "mat_vec m v = map (\<lambda>row. dot row v) m"

definition mat_mul :: "mat \<Rightarrow> mat \<Rightarrow> mat" where
  "mat_mul a b = map (\<lambda>row. map (\<lambda>col. dot row col) (mat_T b)) a"

text \<open>\<open>m[r0:r1, c0:c1] *= k\<close>\<close>

definition scale_block :: "nat \<Rightarrow> nat \<Rightarrow> nat \<Rightarrow> nat \<Rightarrow> real \<Rightarrow> mat \<Rightarrow> mat" where
  "scale_block r0 r1 c0 c1 k m =
     map (\<lambda>i. map (\<lambda>j. if r0 \<le> i \<and> i < r1 \<and> c0 \<le> j \<and> j < c1 then m ! i ! j * k else m ! i ! j)
                  [0..<length (m ! i)]) [0..<length m]"

text \<open>\<open>m[r0:r1, c0:c1] = b\<close>\<close>

definition set_block :: "nat \<Rightarrow> nat \<Rightarrow> nat \<Rightarrow> nat \<Rightarrow> mat \<Rightarrow> mat \<Rightarrow> mat" where
  "set_block r0 r1 c0 c1 b m =
     map (\<lambda>i. map (\<lambda>j. if r0 \<le> i \<and> i < r1 \<and> c0 \<le> j \<and> j < c1 then b ! (i - r0) ! (j - c0) else m ! i ! j)
                  [0..<length (m ! i)]) [0..<length m]"

text \<open>
  \<open>np.linalg.inv\<close>: the inverse of a square matrix, by Gauss-Jordan elimination on the
  matrix augmented with the identity; \<open>None\<close> stands for numpy's \<open>LinAlgError\<close> on a
  singular matrix.
\<close>

definition find_pivot :: "nat \<Rightarrow> mat \<Rightarrow> nat option" where
  "find_pivot k m = (case filter (\<lambda>i. m ! i ! k \<noteq> 0) [k..<length m] of [] \<Rightarrow> None | i # _ \<Rightarrow> Some i)"

definition eliminate :: "nat \<Rightarrow> mat \<Rightarrow> mat option" where
  "eliminate k m =
     (case find_pivot k m of
        None \<Rightarrow> None
      | Some p \<Rightarrow>
          (let swapped = m[k := m ! p, p := m ! k];
               prow = map (\<lambda>v. v / (swapped ! k ! k)) (swapped ! k)
           in Some (map (\<lambda>i. if i = k then prow
                              else map2 (\<lambda>v w. v - (swapped ! i ! k) * w) (swapped ! i) prow)
                        [0..<length swapped])))"

fun gauss_jordan :: "nat list \<Rightarrow> mat \<Rightarrow> mat option" where
  "gauss_jordan [] m = Some m"
| "gauss_jordan (k # ks) m = (case eliminate k m of None \<Rightarrow> None | Some m' \<Rightarrow> gauss_jordan ks m')"

definition linalg_inv :: "mat \<Rightarrow> mat option" where
  "linalg_inv m =
     (let n = length m
      in map_option (map (drop n)) (gauss_jordan [0..<n] (map2 (@) m (eye n))))"

section \<open>Motion state (tracking/bytetrack.py, class KalmanBoxTracker)\<close>

datatype error = LinAlgError

record KalmanBoxTracker =
  trk_id :: int
  state :: vec
  covariance :: mat
  time_since_update :: int
  hit_streak :: int
  hits :: int
  age :: int
  last_timestamp :: real
  confidence :: real

text \<open>
  The matrices \<open>process_noise\<close>, \<open>measurement_noise\<close>, \<open>transition\<close> and
  \<open>measurement\<close> are instance attributes that no method assigns after the constructor
  (the methods work on \<open>transition.copy()\<close>), so they are constants here.
\<close>

definition initial_covariance :: mat where
  "initial_covariance = scale_block 4 8 4 8 1000 (eye 8)"

definition process_noise :: mat where
  "process_noise = scale_block 4 8 4 8 (1/100) (scale_block 0 4 0 4 (1/100) (eye 8))"

definition measurement_noise :: mat where
  "measurement_noise = mat_scale (1/10) (eye 4)"

definition transition :: mat where
  "transition = set_block 0 4 4 8 (eye 4) (eye 8)"

definition measurement :: mat where
  "measurement = set_block 0 4 0 4 (eye 4) (zeros 4 8)"

text \<open>
  \<open>__init__\<close>: the first argument is the class attribute \<open>KalmanBoxTracker.count\<close>;
  the result is the new track and the incremented counter.
\<close>

definition KalmanBoxTracker_init :: "int \<Rightarrow> BoundingBox \<Rightarrow> real \<Rightarrow> KalmanBoxTracker \<times> int" where
  "KalmanBoxTracker_init cnt bbox timestamp =
     (\<lparr> trk_id = cnt,
        state = [bb_x bbox, bb_y bbox, bb_width bbox, bb_height bbox, 0, 0, 0, 0],
        covariance = initial_covariance,
        time_since_update = 0,
        hit_streak = 0,
        hits = 1,
        age = 1,
        last_timestamp = timestamp,
        confidence = bb_confidence bbox \<rparr>,
      cnt + 1)"

text \<open>\<open>transition.copy(); transition[:4, 4:] *= dt\<close>\<close>

definition transition_dt :: "real \<Rightarrow> mat" where
  "transition_dt dt = scale_block 0 4 4 8 dt transition"

text \<open>
  \<open>update\<close>: the assignments made before \<open>np.linalg.inv\<close> raises stay made, so the
  track is returned in both cases.
\<close>

definition KalmanBoxTracker_update ::
  "KalmanBoxTracker \<Rightarrow> BoundingBox \<Rightarrow> real \<Rightarrow> error option \<times> KalmanBoxTracker" where
  "KalmanBoxTracker_update self bbox timestamp =
     (let dt = timestamp - last_timestamp self;
          F = transition_dt dt;
          state1 = mat_vec F (state self);
          covariance1 = mat_add (mat_mul (mat_mul F (covariance self)) (mat_T F)) (mat_scale dt process_noise);
          self1 = self\<lparr> last_timestamp := timestamp, state := state1, covariance := covariance1 \<rparr>;
          z = [bb_x bbox, bb_y bbox, bb_width bbox, bb_height bbox];
          innovation = vec_sub z (mat_vec measurement state1);
          innovation_cov = mat_add (mat_mul (mat_mul measurement covariance1) (mat_T measurement)) measurement_noise
      in case linalg_inv innovation_cov of
           None \<Rightarrow> (Some LinAlgError, self1)
         | Some inv_cov \<Rightarrow>
             (let kalman_gain = mat_mul (mat_mul covariance1 (mat_T measurement)) inv_cov
              in (None,
                  self1\<lparr> state := vec_add state1 (mat_vec kalman_gain innovation),
                         covariance := mat_mul (mat_sub (eye 8) (mat_mul kalman_gain measurement)) covariance1,
                         time_since_update := 0,
                         hit_streak := hit_streak self + 1,
                         hits := hits self + 1,
                         confidence := max (confidence self * (9/10)) (bb_confidence bbox) \<rparr>)))"

definition clip :: "real \<Rightarrow> real \<Rightarrow> real \<Rightarrow> real" where
  "clip v lo hi = min (max v lo) hi"

definition KalmanBoxTracker_predict :: "KalmanBoxTracker \<Rightarrow> real \<Rightarrow> BoundingBox \<times> KalmanBoxTracker" where
  "KalmanBoxTracker_predict self timestamp =
     (let dt = timestamp - last_timestamp self;
          predicted_state = mat_vec (transition_dt dt) (state self)
      in (\<lparr> bb_x = clip (predicted_state ! 0) 0 1,
             bb_y = clip (predicted_state ! 1) 0 1,
             bb_width = clip (predicted_state ! 2) (1/100) 1,
             bb_height = clip (predicted_state ! 3) (1/100) 1,
             bb_confidence = confidence self * (95/100) \<rparr>,
          self\<lparr> age := age self + 1, time_since_update := time_since_update self + 1 \<rparr>))"

definition get_state :: "KalmanBoxTracker \<Rightarrow> BoundingBox" where
  "get_state self =
     \<lparr> bb_x = clip (state self ! 0) 0 1,
       bb_y = clip (state self ! 1) 0 1,
       bb_width = clip (state self ! 2) (1/100) 1,
       bb_height = clip (state self ! 3) (1/100) 1,
       bb_confidence = confidence self \<rparr>"

section \<open>Tracker (tracking/bytetrack.py, class ByteTracker)\<close>

record TrackingData =
  td_track_id :: int
  td_bounding_box :: BoundingBox
  td_timestamp :: real

text \<open>
  The field \<open>kbt_count\<close> is the class attribute \<open>KalmanBoxTracker.count\<close>: the
  service builds one tracker, so the counter is kept with it.
\<close>

record ByteTracker =
  track_thresh :: real
  track_buffer :: int
  match_thresh :: real
  frame_rate :: int
  tracked_stracks :: "KalmanBoxTracker list"
  lost_stracks :: "KalmanBoxTracker list"
  removed_stracks :: "KalmanBoxTracker list"
  frame_id :: int
  total_tracks :: int
  active_tracks :: int
  kbt_count :: int

definition ByteTracker_init :: "int \<Rightarrow> real \<Rightarrow> int \<Rightarrow> real \<Rightarrow> int \<Rightarrow> ByteTracker" where
  "ByteTracker_init cnt thresh buffer mthresh rate =
     \<lparr> track_thresh = thresh, track_buffer = buffer, match_thresh = mthresh, frame_rate = rate,
       tracked_stracks = [], lost_stracks = [], removed_stracks = [],
       frame_id = 0, total_tracks = 0, active_tracks = 0, kbt_count = cnt \<rparr>"

subsection \<open>\_associate\<close>

text \<open>
  \<open>np.argsort\<close>: the indices that sort the array in ascending order. Equal keys keep
  their order here; numpy's default sort promises no order among them.
\<close>

definition argsort :: "real list \<Rightarrow> nat list" where
  "argsort xs = sort_key (\<lambda>i. xs ! i) [0..<length xs]"

text \<open>The loop over \<open>indices\<close>, on the candidate pairs in sorted order.\<close>

fun greedy_match ::
  "(nat \<times> nat) list \<Rightarrow> (nat \<times> nat) list \<times> nat set \<times> nat set
     \<Rightarrow> (nat \<times> nat) list \<times> nat set \<times> nat set" where
  "greedy_match [] acc = acc"
| "greedy_match ((d, t) # rest) (matched_indices, used_det_indices, used_trk_indices) =
     (if d \<notin> used_det_indices \<and> t \<notin> used_trk_indices
      then greedy_match rest
             (matched_indices @ [(d, t)], insert d used_det_indices, insert t used_trk_indices)
      else greedy_match rest (matched_indices, used_det_indices, used_trk_indices))"

definition associate ::
  "BoundingBox list \<Rightarrow> KalmanBoxTracker list \<Rightarrow> real
     \<Rightarrow> (nat \<times> nat) list \<times> nat list \<times> nat list" where
  "associate detections trackers iou_threshold =
     (if length trackers = 0 then ([], [0..<length detections], [])
      else
        (let iou_matrix = map (\<lambda>det. map (\<lambda>track. compute_iou det (get_state track)) trackers) detections;
             coords = concat (map (\<lambda>d. map (\<lambda>t. (d, t))
                        (filter (\<lambda>t. iou_matrix ! d ! t \<ge> iou_threshold) [0..<length trackers]))
                        [0..<length detections]);
             scores = map (\<lambda>(d, t). iou_matrix ! d ! t) coords;
             indices = argsort (map uminus scores);
             (matched_indices, used_det_indices, used_trk_indices) =
                greedy_match (map (\<lambda>idx. coords ! idx) indices) ([], {}, {})
         in (matched_indices,
             filter (\<lambda>d. d \<notin> used_det_indices) [0..<length detections],
             filter (\<lambda>t. t \<notin> used_trk_indices) [0..<length trackers])))"

subsection \<open>update\<close>

definition high_conf :: "ByteTracker \<Rightarrow> BoundingBox list \<Rightarrow> BoundingBox list" where
  "high_conf bt detections = filter (\<lambda>d. bb_confidence d \<ge> track_thresh bt) detections"

definition low_conf :: "ByteTracker \<Rightarrow> BoundingBox list \<Rightarrow> BoundingBox list" where
  "low_conf bt detections = filter (\<lambda>d. bb_confidence d < track_thresh bt) detections"

definition predict_all :: "KalmanBoxTracker list \<Rightarrow> real \<Rightarrow> KalmanBoxTracker list" where
  "predict_all trks timestamp = map (\<lambda>track. snd (KalmanBoxTracker_predict track timestamp)) trks"

text \<open>
  \<open>for m in matches: tracks[m[1]].update(dets[m[0]], timestamp)\<close>; the loop stops at
  the first update that raises.
\<close>

fun update_matched ::
  "(nat \<times> nat) list \<Rightarrow> BoundingBox list \<Rightarrow> real \<Rightarrow> KalmanBoxTracker list
     \<Rightarrow> error option \<times> KalmanBoxTracker list" where
  "update_matched [] dets timestamp trks = (None, trks)"
| "update_matched ((d, t) # ms) dets timestamp trks =
     (case KalmanBoxTracker_update (trks ! t) (dets ! d) timestamp of
        (Some e, trk) \<Rightarrow> (Some e, trks[t := trk])
      | (None, trk) \<Rightarrow> update_matched ms dets timestamp (trks[t := trk]))"

text \<open>
  The second association: the pairs (index into the low-confidence detections, index
  into \<open>tracked_stracks\<close>), the track index already taken through \<open>unmatched_trks\<close>.
\<close>

definition second_round ::
  "BoundingBox list \<Rightarrow> KalmanBoxTracker list \<Rightarrow> nat list \<Rightarrow> (nat \<times> nat) list" where
  "second_round low_conf_dets trks unmatched_trks =
     (if length low_conf_dets > 0 \<and> length unmatched_trks > 0
      then (let unmatched_low_trks = map (\<lambda>i. trks ! i) unmatched_trks;
                (matches_low, unmatched_dets_low, unmatched_trks_low) =
                   associate low_conf_dets unmatched_low_trks (1/2)
            in map (\<lambda>(d, t). (d, unmatched_trks ! t)) matches_low)
      else [])"

text \<open>
  Prediction and the two association rounds: the error if an update raised, the tracks,
  and the indices of the unmatched high-confidence detections.
\<close>

definition associate_tracks ::
  "ByteTracker \<Rightarrow> BoundingBox list \<Rightarrow> real \<Rightarrow> error option \<times> KalmanBoxTracker list \<times> nat list" where
  "associate_tracks bt detections timestamp =
     (let high_conf_dets = high_conf bt detections;
          low_conf_dets = low_conf bt detections;
          trks1 = predict_all (tracked_stracks bt) timestamp;
          (matches, unmatched_dets, unmatched_trks) = associate high_conf_dets trks1 (match_thresh bt)
      in case update_matched matches high_conf_dets timestamp trks1 of
           (Some e, trks2) \<Rightarrow> (Some e, trks2, unmatched_dets)
         | (None, trks2) \<Rightarrow>
             (case update_matched (second_round low_conf_dets trks2 unmatched_trks)
                     low_conf_dets timestamp trks2 of
                (e, trks3) \<Rightarrow> (e, trks3, unmatched_dets)))"

fun init_new_tracks :: "BoundingBox list \<Rightarrow> real \<Rightarrow> ByteTracker \<Rightarrow> ByteTracker" where
  "init_new_tracks [] timestamp bt = bt"
| "init_new_tracks (det # dets) timestamp bt =
     init_new_tracks dets timestamp
       (if bb_confidence det \<ge> track_thresh bt
        then (let (new_track, cnt) = KalmanBoxTracker_init (kbt_count bt) det timestamp
              in bt\<lparr> kbt_count := cnt,
                     tracked_stracks := tracked_stracks bt @ [new_track],
                     total_tracks := total_tracks bt + 1 \<rparr>)
        else bt)"

text \<open>
  \<open>for i in reversed(range(len(tracks))): if tracks[i].time_since_update > buffer:
  lost.append(tracks.pop(i))\<close>
\<close>

fun pop_lost ::
  "nat list \<Rightarrow> int \<Rightarrow> KalmanBoxTracker list \<Rightarrow> KalmanBoxTracker list
     \<Rightarrow> KalmanBoxTracker list \<times> KalmanBoxTracker list" where
  "pop_lost [] buffer trks lost = (trks, lost)"
| "pop_lost (i # rest) buffer trks lost =
     (if time_since_update (trks ! i) > buffer
      then pop_lost rest buffer (take i trks @ drop (Suc i) trks) (lost @ [trks ! i])
      else pop_lost rest buffer trks lost)"

definition tracking_data_of :: "KalmanBoxTracker list \<Rightarrow> real \<Rightarrow> TrackingData list" where
  "tracking_data_of trks timestamp =
     map (\<lambda>track. \<lparr> td_track_id = trk_id track, td_bounding_box = get_state track,
                     td_timestamp = timestamp \<rparr>)
         (filter (\<lambda>track. hit_streak track \<ge> 3) trks)"

definition ByteTracker_update ::
  "ByteTracker \<Rightarrow> BoundingBox list \<Rightarrow> real \<Rightarrow> (error + TrackingData list) \<times> ByteTracker" where
  "ByteTracker_update bt detections timestamp =
     (let bt1 = bt\<lparr> frame_id := frame_id bt + 1 \<rparr>
      in case associate_tracks bt detections timestamp of
           (Some e, trks, unmatched_dets) \<Rightarrow> (Inl e, bt1\<lparr> tracked_stracks := trks \<rparr>)
         | (None, trks, unmatched_dets) \<Rightarrow>
             (let high_conf_dets = high_conf bt detections;
                  bt2 = init_new_tracks (map (\<lambda>i. high_conf_dets ! i) unmatched_dets) timestamp
                          (bt1\<lparr> tracked_stracks := trks \<rparr>);
                  (kept, lost) = pop_lost (rev [0..<length (tracked_stracks bt2)]) (track_buffer bt2)
                                   (tracked_stracks bt2) [];
                  bt3 = bt2\<lparr> tracked_stracks := kept,
                              lost_stracks := filter (\<lambda>track. time_since_update track \<le> track_buffer bt2)
                                                (lost_stracks bt2 @ lost) \<rparr>;
                  tracking_data = tracking_data_of (tracked_stracks bt3) timestamp
              in (Inr tracking_data, bt3\<lparr> active_tracks := int (length tracking_data) \<rparr>)))"

record performance_stats =
  stats_total_tracks :: int
  stats_active_tracks :: int
  stats_lost_tracks :: int
  stats_frame_id :: int

definition get_performance_stats :: "ByteTracker \<Rightarrow> performance_stats" where
  "get_performance_stats bt =
     \<lparr> stats_total_tracks = total_tracks bt, stats_active_tracks = active_tracks bt,
       stats_lost_tracks = int (length (lost_stracks bt)), stats_frame_id = frame_id bt \<rparr>"

definition ByteTracker_reset :: "ByteTracker \<Rightarrow> ByteTracker" where
  "ByteTracker_reset bt =
     bt\<lparr> tracked_stracks := [], lost_stracks := [], removed_stracks := [], frame_id := 0,
         kbt_count := 0 \<rparr>"

text \<open>
  A session: the tracker after a sequence of frames (detections and timestamp), one
  \<open>update\<close> call per frame. A call that raised leaves the tracker as it was when the
  exception left it; the next call works on that.
\<close>

fun run_frames :: "ByteTracker \<Rightarrow> (BoundingBox list \<times> real) list \<Rightarrow> ByteTracker" where
  "run_frames bt [] = bt"
| "run_frames bt ((detections, timestamp) # frames) =
     run_frames (snd (ByteTracker_update bt detections timestamp)) frames"

text \<open>A session with resets: the calls made on the tracker, in order.\<close>

datatype call = Update "BoundingBox list" real | Reset

fun run_calls :: "ByteTracker \<Rightarrow> call list \<Rightarrow> ByteTracker" where
  "run_calls bt [] = bt"
| "run_calls bt (Update detections timestamp # calls) =
     run_calls (snd (ByteTracker_update bt detections timestamp)) calls"
| "run_calls bt (Reset # calls) = run_calls (ByteTracker_reset bt) calls"

section \<open>Pipeline (video\_processing/pipeline.py, class VideoProcessor)\<close>

subsection \<open>\_load\_video\<close>

text \<open>\<open>sub in s\<close> and \<open>s.startswith(prefix)\<close> on Python strings.\<close>

fun str_contains :: "string \<Rightarrow> string \<Rightarrow> bool" where
  "str_contains sub [] = (sub = [])"
| "str_contains sub (c # cs) = (take (length sub) (c # cs) = sub \<or> str_contains sub cs)"

definition startswith :: "string \<Rightarrow> string \<Rightarrow> bool" where
  "startswith s pre = (take (length pre) s = pre)"

text \<open>
  \<open>Path(p).resolve()\<close> on a file system without symbolic links: the path is made
  absolute against the working directory, empty and \<open>.\<close> segments are dropped, and a
  \<open>..\<close> segment removes the segment before it (none at the root); repeated slashes
  collapse, also at the start.
\<close>

fun split_slash :: "string \<Rightarrow> string \<Rightarrow> string list" where
  "split_slash acc [] = [acc]"
| "split_slash acc (c # cs) = (if c = CHR ''/'' then acc # split_slash [] cs else split_slash (acc @ [c]) cs)"

fun normalize_segments :: "string list \<Rightarrow> string list \<Rightarrow> string list" where
  "normalize_segments stack [] = stack"
| "normalize_segments stack (seg # segs) =
     (if seg = [] \<or> seg = ''.'' then normalize_segments stack segs
      else if seg = ''..'' then normalize_segments (butlast stack) segs
      else normalize_segments (stack @ [seg]) segs)"

definition join_segments :: "string list \<Rightarrow> string" where
  "join_segments segs = concat (map (\<lambda>seg. CHR ''/'' # seg) segs)"

definition resolve :: "string \<Rightarrow> string \<Rightarrow> string" where
  "resolve cwd p =
     (let absolute = (if startswith p ''/'' then p else cwd @ ''/'' @ p);
          segs = normalize_segments [] (split_slash [] absolute)
      in if segs = [] then ''/'' else join_segments segs)"

datatype video_error =
    Invalid_video_path
  | Video_path_not_allowed
  | Video_file_not_found
  | Failed_to_open_video
  | Video_too_long
  | ZeroDivisionError

text \<open>
  What the function sees of the outside: the working directory, the configured
  \<open>allowed_video_dirs\<close> and \<open>max_video_duration\<close>, \<open>os.path.exists\<close>, and
  \<open>cv2.VideoCapture\<close> (\<open>None\<close> when the capture does not open, else the frame rate
  and the frame count).
\<close>

record load_env =
  cwd :: string
  allowed_video_dirs :: "string list"
  max_video_duration :: real
  path_exists :: "string \<Rightarrow> bool"
  video_capture :: "string \<Rightarrow> (real \<times> int) option"

datatype file_access = Exists string | Open string

text \<open>
  \<open>_load_video\<close>: the file accesses made, in order, and the error raised or the
  frame rate, frame count and duration returned.
\<close>

definition load_video :: "load_env \<Rightarrow> string \<Rightarrow> file_access list \<times> (video_error + real \<times> int \<times> real)" where
  "load_video env video_path =
     (let resolved_path = resolve (cwd env) video_path
      in if str_contains ''..'' resolved_path \<or> \<not> startswith resolved_path ''/''
         then ([], Inl Invalid_video_path)
         else if \<not> list_ex (\<lambda>allowed_dir. startswith resolved_path allowed_dir) (allowed_video_dirs env)
         then ([], Inl Video_path_not_allowed)
         else if \<not> path_exists env video_path
         then ([Exists video_path], Inl Video_file_not_found)
         else (case video_capture env video_path of
                 None \<Rightarrow> ([Exists video_path, Open video_path], Inl Failed_to_open_video)
               | Some (fps, total_frames) \<Rightarrow>
                   ([Exists video_path, Open video_path],
                    if fps = 0 then Inl ZeroDivisionError
                    else (let duration = real_of_int total_frames / fps
                          in if duration > max_video_duration env then Inl Video_too_long
                             else Inr (fps, total_frames, duration)))))"

text \<open>
  A path lies under a directory when it is the directory or continues it after a
  separator.
\<close>

definition path_under :: "string \<Rightarrow> string \<Rightarrow> bool" where
  "path_under dir p = (p = dir \<or> startswith p (dir @ ''/''))"

subsection \<open>process\_video and \_process\_frames: the writes to the job status\<close>

datatype ProcessingStage = QUEUED | DETECTING | TRACKING | RENDERING | ENCODING | COMPLETED | FAILED

text \<open>The fields of \<open>ProcessingStatus\<close> that the pipeline assigns, the message apart.\<close>

record ProcessingStatus =
  stage :: ProcessingStage
  progress :: real
  status_error :: "string option"

text \<open>
  What the outside does to one job: whether \<open>_load_video\<close> raises, the number
  \<open>end_frame - start_frame + 1\<close>, whether the code between loading and the frame loop
  raises, for each frame whether \<open>cap.read()\<close> fails (the loop breaks) or a later call
  in the iteration raises, whether finalisation or the computation of the metrics raises,
  and whether the code that follows the COMPLETED write inside the same \<open>try\<close> raises
  (releasing the capture, removing the temporary file, building the response).
\<close>

datatype frame_outcome = Frame_ok | Read_failed | Frame_raises

record job_script =
  load_raises :: bool
  processing_frames :: int
  setup_raises :: bool
  frame_outcomes :: "nat \<Rightarrow> frame_outcome"
  finalize_raises :: bool
  metrics_raise :: bool
  response_raises :: bool

text \<open>
  The value \<open>progress = 0.1 + 0.7 * (frame_idx / processing_frames)\<close> of one iteration,
  \<open>n\<close> being \<open>processing_frames\<close>: the constants are the binary64 numbers nearest to 1/10 and 7/10, the quotient of the two
  integers, the product and the sum are rounded.
\<close>

definition frame_progress :: "nat \<Rightarrow> int \<Rightarrow> real" where
  "frame_progress frame_idx n =
     fl64 (fl64 (1/10) + fl64 (fl64 (7/10) * fl64 (real frame_idx / real_of_int n)))"

text \<open>
  The loop of \<open>_process_frames\<close>: the status, the statuses written so far, and whether
  an exception left the loop.
\<close>

fun process_frames ::
  "(nat \<Rightarrow> frame_outcome) \<Rightarrow> int \<Rightarrow> nat list \<Rightarrow> ProcessingStatus \<Rightarrow> ProcessingStatus list
     \<Rightarrow> bool \<times> ProcessingStatus \<times> ProcessingStatus list" where
  "process_frames outcomes n [] status written = (False, status, written)"
| "process_frames outcomes n (frame_idx # rest) status written =
     (let status1 = status\<lparr> progress := frame_progress frame_idx n \<rparr>;
          written1 = written @ [status1]
      in case outcomes frame_idx of
           Read_failed \<Rightarrow> (False, status1, written1)
         | Frame_raises \<Rightarrow> (True, status1, written1)
         | Frame_ok \<Rightarrow> process_frames outcomes n rest status1 written1)"

text \<open>The \<open>except\<close> handler of \<open>process_video\<close>.\<close>

definition job_failed :: "ProcessingStatus \<Rightarrow> ProcessingStatus" where
  "job_failed status = status\<lparr> stage := FAILED, status_error := Some ''error'' \<rparr>"

text \<open>\<open>process_video\<close>: every value the job's status takes, in order.\<close>

definition process_video :: "job_script \<Rightarrow> ProcessingStatus list" where
  "process_video script =
     (let status0 = \<lparr> stage = QUEUED, progress = 0, status_error = None \<rparr>
      in if load_raises script then [status0, job_failed status0]
         else
           (let status1 = status0\<lparr> stage := DETECTING, progress := fl64 (1/10) \<rparr>
            in if setup_raises script then [status0, status1, job_failed status1]
               else
                 (case process_frames (frame_outcomes script) (processing_frames script)
                         [0..<nat (processing_frames script)] status1 [status0, status1] of
                    (True, status2, written) \<Rightarrow> written @ [job_failed status2]
                  | (False, status2, written) \<Rightarrow>
                      (let status3 = status2\<lparr> stage := ENCODING, progress := fl64 (9/10) \<rparr>
                       in if finalize_raises script \<or> metrics_raise script
                          then written @ [status3, job_failed status3]
                          else
                            (let status4 = status3\<lparr> stage := COMPLETED, progress := 1 \<rparr>
                             in if response_raises script
                                then written @ [status3, status4, job_failed status4]
                                else written @ [status3, status4])))))"

section \<open>Notions used to state the properties\<close>


text \<open>
  What one \<open>update\<close> call matches. \<open>first_matches\<close> is the result of the first
  association; \<open>second_matches\<close> is the pairs of the second one (none when an update
  of the first round raised).
\<close>

definition first_matches ::
  "ByteTracker \<Rightarrow> BoundingBox list \<Rightarrow> real \<Rightarrow> (nat \<times> nat) list \<times> nat list \<times> nat list" where
  "first_matches bt detections timestamp =
     associate (high_conf bt detections) (predict_all (tracked_stracks bt) timestamp) (match_thresh bt)"

definition second_matches :: "ByteTracker \<Rightarrow> BoundingBox list \<Rightarrow> real \<Rightarrow> (nat \<times> nat) list" where
  "second_matches bt detections timestamp =
     (case first_matches bt detections timestamp of
        (matches, unmatched_dets, unmatched_trks) \<Rightarrow>
          (case update_matched matches (high_conf bt detections) timestamp
                  (predict_all (tracked_stracks bt) timestamp) of
             (Some e, trks2) \<Rightarrow> []
           | (None, trks2) \<Rightarrow> second_round (low_conf bt detections) trks2 unmatched_trks))"

text \<open>
  The positions, in the list passed to \<open>update\<close>, of the high-confidence and of the
  low-confidence detections: the k-th element of \<open>high_conf_dets\<close> is the detection at
  position \<open>high_positions ! k\<close>.
\<close>

definition high_positions :: "ByteTracker \<Rightarrow> BoundingBox list \<Rightarrow> nat list" where
  "high_positions bt detections =
     filter (\<lambda>i. bb_confidence (detections ! i) \<ge> track_thresh bt) [0..<length detections]"

definition low_positions :: "ByteTracker \<Rightarrow> BoundingBox list \<Rightarrow> nat list" where
  "low_positions bt detections =
     filter (\<lambda>i. bb_confidence (detections ! i) < track_thresh bt) [0..<length detections]"

text \<open>
  All matched pairs of one call, as (position of the detection in the input list, index
  of the track in \<open>tracked_stracks\<close>).
\<close>

definition frame_pairs :: "ByteTracker \<Rightarrow> BoundingBox list \<Rightarrow> real \<Rightarrow> (nat \<times> nat) list" where
  "frame_pairs bt detections timestamp =
     map (\<lambda>(d, t). (high_positions bt detections ! d, t)) (fst (first_matches bt detections timestamp)) @
     map (\<lambda>(d, t). (low_positions bt detections ! d, t)) (second_matches bt detections timestamp)"

text \<open>The identities of the tracks matched in one call.\<close>

definition matched_ids :: "ByteTracker \<Rightarrow> BoundingBox list \<Rightarrow> real \<Rightarrow> int list" where
  "matched_ids bt detections timestamp =
     map (\<lambda>(d, t). trk_id (tracked_stracks bt ! t)) (frame_pairs bt detections timestamp)"

definition ids :: "ByteTracker \<Rightarrow> int list" where
  "ids bt = map trk_id (tracked_stracks bt)"

text \<open>
  A run of frames none of which matches the track of identity \<open>k\<close>, every call
  returning normally.
\<close>

fun missed_frames :: "int \<Rightarrow> ByteTracker \<Rightarrow> (BoundingBox list \<times> real) list \<Rightarrow> bool" where
  "missed_frames k bt [] = True"
| "missed_frames k bt ((detections, timestamp) # frames) =
     (k \<notin> set (matched_ids bt detections timestamp) \<and>
      isl (fst (ByteTracker_update bt detections timestamp)) = False \<and>
      missed_frames k (snd (ByteTracker_update bt detections timestamp)) frames)"

text \<open>The tracks that one \<open>update\<close> call constructs.\<close>

definition new_tracks :: "ByteTracker \<Rightarrow> BoundingBox list \<Rightarrow> real \<Rightarrow> KalmanBoxTracker list" where
  "new_tracks bt detections timestamp =
     (case associate_tracks bt detections timestamp of
        (Some e, trks, unmatched_dets) \<Rightarrow> []
      | (None, trks, unmatched_dets) \<Rightarrow>
          drop (length trks)
            (tracked_stracks
               (init_new_tracks (map (\<lambda>i. high_conf bt detections ! i) unmatched_dets) timestamp
                  (bt\<lparr> frame_id := frame_id bt + 1, tracked_stracks := trks \<rparr>))))"

text \<open>The identities given to new tracks over a session, in the order of construction.\<close>

fun created_ids :: "ByteTracker \<Rightarrow> call list \<Rightarrow> int list" where
  "created_ids bt [] = []"
| "created_ids bt (Update detections timestamp # calls) =
     map trk_id (new_tracks bt detections timestamp) @
     created_ids (snd (ByteTracker_update bt detections timestamp)) calls"
| "created_ids bt (Reset # calls) = created_ids (ByteTracker_reset bt) calls"

text \<open>
  The identities of the active tracks increase along the list and lie below the counter.
\<close>

definition id_inv :: "ByteTracker \<Rightarrow> bool" where
  "id_inv bt \<longleftrightarrow> sorted_wrt (<) (ids bt) \<and> list_all (\<lambda>i. i < kbt_count bt) (ids bt)"

text \<open>The tracker after the association rounds and the construction of new tracks.\<close>

definition spawned :: "ByteTracker \<Rightarrow> BoundingBox list \<Rightarrow> real \<Rightarrow> KalmanBoxTracker list \<Rightarrow> nat list \<Rightarrow> ByteTracker" where
  "spawned bt detections timestamp trks ud =
     init_new_tracks (map (\<lambda>i. high_conf bt detections ! i) ud) timestamp
        (bt\<lparr> frame_id := frame_id bt + 1, tracked_stracks := trks \<rparr>)"

text \<open>
  Consecutive \<open>predict\<close> calls on one track, at the given timestamps, with no
  \<open>update\<close> between them: the boxes returned and the track afterwards.
\<close>

fun predict_n :: "KalmanBoxTracker \<Rightarrow> real list \<Rightarrow> BoundingBox list \<times> KalmanBoxTracker" where
  "predict_n self [] = ([], self)"
| "predict_n self (timestamp # rest) =
     (case KalmanBoxTracker_predict self timestamp of
        (box, self1) \<Rightarrow> (case predict_n self1 rest of (boxes, self2) \<Rightarrow> (box # boxes, self2)))"

text \<open>
  The covariance matrices that arise are made of four blocks, each a multiple of the
  4x4 identity.
\<close>

definition block_cov :: "real \<Rightarrow> real \<Rightarrow> real \<Rightarrow> real \<Rightarrow> mat" where
  "block_cov a b c d =
    [[a,0,0,0,b,0,0,0],[0,a,0,0,0,b,0,0],[0,0,a,0,0,0,b,0],[0,0,0,a,0,0,0,b],
     [c,0,0,0,d,0,0,0],[0,c,0,0,0,d,0,0],[0,0,c,0,0,0,d,0],[0,0,0,c,0,0,0,d]]"








definition player_box :: BoundingBox where
  "player_box = \<lparr> bb_x = 3/10, bb_y = 4/10, bb_width = 1/10, bb_height = 3/10, bb_confidence = 9/10 \<rparr>"

definition other_box :: BoundingBox where
  "other_box = \<lparr> bb_x = 6/10, bb_y = 3/10, bb_width = 8/100, bb_height = 1/4, bb_confidence = 3/4 \<rparr>"

text \<open>Concrete inputs: trackers with the default settings and with a buffer of one frame.\<close>

definition default_tracker :: ByteTracker where
  "default_tracker = ByteTracker_init 0 (6/10) 30 (8/10) 30"

definition short_buffer_tracker :: ByteTracker where
  "short_buffer_tracker = ByteTracker_init 0 (6/10) 1 (8/10) 30"

definition shifted_box :: BoundingBox where
  "shifted_box = \<lparr> bb_x = 8/25, bb_y = 4/10, bb_width = 1/10, bb_height = 3/10, bb_confidence = 9/10 \<rparr>"

definition upload_env :: load_env where
  "upload_env = \<lparr> cwd = ''/app'', allowed_video_dirs = [''/app/uploads''], max_video_duration = 300,
                   path_exists = (\<lambda>p. True), video_capture = (\<lambda>p. Some (30, 900)) \<rparr>"

definition failing_script :: job_script where
  "failing_script = \<lparr> load_raises = False, processing_frames = 4, setup_raises = False,
                       frame_outcomes = (\<lambda>i. if i = 2 then Frame_raises else Frame_ok),
                       finalize_raises = False, metrics_raise = False, response_raises = False \<rparr>"

definition late_failing_script :: job_script where
  "late_failing_script = \<lparr> load_raises = False, processing_frames = 1, setup_raises = False,
                            frame_outcomes = (\<lambda>i. Frame_ok),
                            finalize_raises = False, metrics_raise = False, response_raises = True \<rparr>"

section \<open>Rounding\<close>

lemma floor_log2_eq:
  assumes "2 powi e \<le> \<bar>x\<bar>" and "\<bar>x\<bar> < 2 powi (e + 1)"
  shows "\<lfloor>log 2 \<bar>x\<bar>\<rfloor> = e"
proof -
  have pos: "0 < \<bar>x\<bar>" using assms(1) by (smt (verit) zero_less_power_int)
  have p1: "(2::real) powr (of_int e) = 2 powi e" by (rule powr_real_of_int') auto
  have p2: "(2::real) powr (of_int e + 1) = 2 powi (e + 1)"
    using powr_real_of_int'[of "2::real" "e + 1"] by simp
  show ?thesis using pos assms by (simp add: floor_log_eq_powr_iff p1 p2)
qed

lemma fl64_eval:
  assumes "2 powi e \<le> \<bar>x\<bar>" and "\<bar>x\<bar> < 2 powi (e + 1)"
  shows "fl64 x = of_int (rhe (x / 2 powi (e - 52))) * 2 powi (e - 52)"
proof -
  have "x \<noteq> 0" using assms(1) by (smt (verit) zero_less_power_int abs_zero)
  then show ?thesis using floor_log2_eq[OF assms] by (simp add: fl64_def Let_def)
qed


lemma rhe_cases: "rhe x = \<lfloor>x\<rfloor> \<or> rhe x = \<lfloor>x\<rfloor> + 1"
  by (simp add: rhe_def Let_def)

lemma rhe_int: "rhe (of_int n) = n"
  by (simp add: rhe_def Let_def)

lemma rhe_ge: "of_int n \<le> x \<Longrightarrow> n \<le> rhe x"
  using rhe_cases[of x] by (smt (verit) le_floor_iff)

lemma rhe_le: "x \<le> of_int n \<Longrightarrow> rhe x \<le> n"
proof (cases "x = of_int n")
  case True
  then show ?thesis by (simp add: rhe_int)
next
  case False
  assume "x \<le> of_int n"
  then have "x < of_int n" using False by simp
  then have "\<lfloor>x\<rfloor> < n" by (simp add: floor_less_iff)
  then show ?thesis using rhe_cases[of x] by linarith
qed

lemma rhe_mono: "x \<le> y \<Longrightarrow> rhe x \<le> rhe y"
proof -
  assume xy: "x \<le> y"
  have fm: "\<lfloor>x\<rfloor> \<le> \<lfloor>y\<rfloor>" using xy by (rule floor_mono)
  show ?thesis
  proof (cases "\<lfloor>x\<rfloor> < \<lfloor>y\<rfloor>")
    case True
    have "rhe x \<le> \<lfloor>x\<rfloor> + 1" using rhe_cases[of x] by linarith
    moreover have "\<lfloor>y\<rfloor> \<le> rhe y" using rhe_cases[of y] by linarith
    ultimately show ?thesis using True by linarith
  next
    case False
    then have e: "\<lfloor>x\<rfloor> = \<lfloor>y\<rfloor>" using fm by simp
    have d: "x - of_int \<lfloor>y\<rfloor> \<le> y - of_int \<lfloor>y\<rfloor>" using xy by simp
    show ?thesis unfolding rhe_def Let_def e using d by (auto split: if_splits)
  qed
qed

lemma rhe_minus: "rhe (- x) = - rhe x"
proof (cases "x = of_int \<lfloor>x\<rfloor>")
  case True
  then obtain n where "x = of_int n" ..
  then show ?thesis using rhe_int[of "- n"] rhe_int[of n] by simp
next
  case False
  then have f: "\<lfloor>- x\<rfloor> = - \<lfloor>x\<rfloor> - 1"
    by (smt (verit) ceiling_altdef ceiling_def)
  have ev: "even (- \<lfloor>x\<rfloor> - 1) \<longleftrightarrow> odd \<lfloor>x\<rfloor>" by simp
  show ?thesis unfolding rhe_def Let_def f ev by (auto split: if_splits) 
qed

lemma fl64_zero: "fl64 0 = 0"
  by (simp add: fl64_def)

lemma fl64_minus: "fl64 (- x) = - fl64 x"
  by (simp add: fl64_def Let_def rhe_minus)

lemma log2_bounds:
  assumes "0 < x"
  shows "2 powi \<lfloor>log 2 x\<rfloor> \<le> x" and "x < 2 powi (\<lfloor>log 2 x\<rfloor> + 1)"
proof -
  define e where "e = \<lfloor>log 2 x\<rfloor>"
  have p1: "(2::real) powr (of_int e) = 2 powi e" by (rule powr_real_of_int') auto
  have p2: "(2::real) powr (of_int e + 1) = 2 powi (e + 1)"
    using powr_real_of_int'[of "2::real" "e + 1"] by simp
  have "2 powr (of_int e) \<le> x \<and> x < 2 powr (of_int e + 1)"
    using floor_log_eq_powr_iff[of x 2 e] assms e_def by simp
  then have c: "2 powi e \<le> x \<and> x < 2 powi (e + 1)" by (simp add: p1 p2)
  show "2 powi \<lfloor>log 2 x\<rfloor> \<le> x" using c by (simp add: e_def)
  show "x < 2 powi (\<lfloor>log 2 x\<rfloor> + 1)" using c by (simp add: e_def)
qed

lemma fl64_pos_bounds:
  assumes "0 < x"
  shows "2 powi \<lfloor>log 2 x\<rfloor> \<le> fl64 x" and "fl64 x \<le> 2 powi (\<lfloor>log 2 x\<rfloor> + 1)"
proof -
  define e where "e = \<lfloor>log 2 x\<rfloor>"
  define u :: real where "u = 2 powi (e - 52)"
  have up: "0 < u" by (simp add: u_def)
  have f: "fl64 x = of_int (rhe (x / u)) * u"
    using assms by (simp add: fl64_def Let_def u_def e_def)
  have s1: "(2::real) powi e = 2 ^ 52 * u" unfolding u_def by (simp add: power_int_diff)
  have s2: "(2::real) powi (e + 1) = 2 ^ 53 * u" unfolding u_def
    by (simp add: power_int_diff power_int_add)
  have b: "2 ^ 52 * u \<le> x" "x < 2 ^ 53 * u"
    using log2_bounds[OF assms] unfolding e_def[symmetric] s1 s2 by simp_all
  have q: "of_int (2 ^ 52) \<le> x / u" "x / u \<le> of_int (2 ^ 53)"
    using b up by (simp_all add: le_divide_eq divide_le_eq)
  have r: "2 ^ 52 \<le> rhe (x / u)" "rhe (x / u) \<le> 2 ^ 53"
    using rhe_ge[OF q(1)] rhe_le[OF q(2)] by simp_all
  have r': "(2::real) ^ 52 \<le> of_int (rhe (x / u))" "of_int (rhe (x / u)) \<le> (2::real) ^ 53"
    using r by (metis of_int_le_iff of_int_numeral of_int_power)+
  show "2 powi \<lfloor>log 2 x\<rfloor> \<le> fl64 x" "fl64 x \<le> 2 powi (\<lfloor>log 2 x\<rfloor> + 1)"
    unfolding e_def[symmetric] s1 s2 f using r' up by simp_all
qed

lemma fl64_nonneg: "0 \<le> x \<Longrightarrow> 0 \<le> fl64 x"
proof (cases "x = 0")
  case False
  assume "0 \<le> x"
  then have "0 < x" using False by simp
  from fl64_pos_bounds(1)[OF this] show ?thesis
    by (smt (verit) zero_less_power_int)
qed (simp add: fl64_zero)

lemma fl64_mono_pos:
  assumes "0 < x" and "x \<le> y"
  shows "fl64 x \<le> fl64 y"
proof -
  have y: "0 < y" using assms by simp
  have le: "\<lfloor>log 2 x\<rfloor> \<le> \<lfloor>log 2 y\<rfloor>"
    using assms y by (intro floor_mono) simp
  show ?thesis
  proof (cases "\<lfloor>log 2 x\<rfloor> = \<lfloor>log 2 y\<rfloor>")
    case True
    define u :: real where "u = 2 powi (\<lfloor>log 2 y\<rfloor> - 52)"
    have up: "0 < u" by (simp add: u_def)
    have fx: "fl64 x = of_int (rhe (x / u)) * u"
      using assms(1) True by (simp add: fl64_def Let_def u_def)
    have fy: "fl64 y = of_int (rhe (y / u)) * u"
      using y by (simp add: fl64_def Let_def u_def)
    have "x / u \<le> y / u" using assms(2) up by (simp add: divide_right_mono)
    then have "rhe (x / u) \<le> rhe (y / u)" by (rule rhe_mono)
    then show ?thesis unfolding fx fy using up by simp
  next
    case False
    then have "\<lfloor>log 2 x\<rfloor> + 1 \<le> \<lfloor>log 2 y\<rfloor>" using le by simp
    then have "(2::real) powi (\<lfloor>log 2 x\<rfloor> + 1) \<le> 2 powi \<lfloor>log 2 y\<rfloor>"
      by (intro power_int_increasing) simp_all
    then show ?thesis
      using fl64_pos_bounds(2)[OF assms(1)] fl64_pos_bounds(1)[OF y] by linarith
  qed
qed

lemma fl64_mono: "x \<le> y \<Longrightarrow> fl64 x \<le> fl64 y"
proof -
  assume xy: "x \<le> y"
  consider "0 < x" | "x \<le> 0" "0 \<le> y" | "y < 0" by linarith
  then show ?thesis
  proof cases
    case 1
    then show ?thesis using fl64_mono_pos xy by simp
  next
    case 2
    have "fl64 x \<le> 0" using fl64_nonneg[of "- x"] 2(1) by (simp add: fl64_minus)
    then show ?thesis using fl64_nonneg[OF 2(2)] by linarith
  next
    case 3
    then have "0 < - y" "- y \<le> - x" using xy by simp_all
    from fl64_mono_pos[OF this] show ?thesis by (simp add: fl64_minus)
  qed
qed


section \<open>IoU\<close>
















section \<open>Tracker: lemmas on the phases of update\<close>


lemma predict_snd:
  "snd (KalmanBoxTracker_predict t ts) = t\<lparr> age := age t + 1, time_since_update := time_since_update t + 1 \<rparr>"
  by (simp add: KalmanBoxTracker_predict_def Let_def)

lemma update_trk_id: "trk_id (snd (KalmanBoxTracker_update t b ts)) = trk_id t"
  by (simp add: KalmanBoxTracker_update_def Let_def split: option.splits)

lemma update_ok_fields:
  "fst (KalmanBoxTracker_update t b ts) = None \<Longrightarrow>
   time_since_update (snd (KalmanBoxTracker_update t b ts)) = 0 \<and>
   hit_streak (snd (KalmanBoxTracker_update t b ts)) = hit_streak t + 1"
  by (simp add: KalmanBoxTracker_update_def Let_def split: option.splits)

lemma update_matched_length: "length (snd (update_matched ms dets ts trks)) = length trks"
  by (induction ms dets ts trks rule: update_matched.induct) (auto split: prod.splits option.splits)

lemma update_matched_ids:
  "map trk_id (snd (update_matched ms dets ts trks)) = map trk_id trks"
proof (induction ms dets ts trks rule: update_matched.induct)
  case (1 dets ts trks)
  then show ?case by simp
next
  case (2 d t ms dets ts trks)
  have e: "map trk_id (trks[t := snd (KalmanBoxTracker_update (trks ! t) (dets ! d) ts)]) = map trk_id trks"
    by (metis list_update_id map_update update_trk_id)
  obtain er trk where k: "KalmanBoxTracker_update (trks ! t) (dets ! d) ts = (er, trk)" by (cases "KalmanBoxTracker_update (trks ! t) (dets ! d) ts")
  show ?case
  proof (cases er)
    case None
    then show ?thesis using 2[OF k[symmetric] None] k e by simp
  next
    case (Some a)
    then show ?thesis using k e by simp
  qed
qed

lemma update_matched_untouched:
  "i \<notin> snd ` set ms \<Longrightarrow> snd (update_matched ms dets ts trks) ! i = trks ! i"
proof (induction ms dets ts trks rule: update_matched.induct)
  case (1 dets ts trks)
  then show ?case by simp
next
  case (2 d t ms dets ts trks)
  obtain er trk where k: "KalmanBoxTracker_update (trks ! t) (dets ! d) ts = (er, trk)" by (cases "KalmanBoxTracker_update (trks ! t) (dets ! d) ts")
  have ne: "i \<noteq> t" and rest: "i \<notin> snd ` set ms" using 2(2) by auto
  show ?case
  proof (cases er)
    case None
    then show ?thesis using 2(1)[OF k[symmetric] None rest] k ne by simp
  next
    case (Some a)
    then show ?thesis using k ne by simp
  qed
qed

lemma pop_lost_filter_aux:
  "pop_lost (rev [0..<length pre]) buffer (pre @ suf) lost =
     (filter (\<lambda>t. \<not> time_since_update t > buffer) pre @ suf,
      lost @ rev (filter (\<lambda>t. time_since_update t > buffer) pre))"
proof (induction pre arbitrary: suf lost rule: rev_induct)
  case Nil
  then show ?case by simp
next
  case (snoc a pre)
  have n: "(pre @ [a] @ suf) ! length pre = a" by (simp add: nth_append)
  show ?case
  proof (cases "time_since_update a > buffer")
    case True
    then show ?thesis using snoc[of suf "lost @ [a]"] n by (simp add: nth_append)
  next
    case False
    then show ?thesis using snoc[of "a # suf" lost] n by (simp add: nth_append)
  qed
qed

lemma pop_lost_filter:
  "pop_lost (rev [0..<length trks]) buffer trks [] =
     (filter (\<lambda>t. time_since_update t \<le> buffer) trks,
      rev (filter (\<lambda>t. time_since_update t > buffer) trks))"
  using pop_lost_filter_aux[of trks buffer "[]" "[]"] by (simp add: not_less)


lemma greedy_match_inv:
  assumes "greedy_match cands (m, ud, ut) = (m', ud', ut')"
      and "ud = fst ` set m" and "ut = snd ` set m"
      and "distinct (map fst m)" and "distinct (map snd m)"
  shows "ud' = fst ` set m' \<and> ut' = snd ` set m' \<and> distinct (map fst m') \<and>
         distinct (map snd m') \<and> set m' \<subseteq> set m \<union> set cands"
  using assms
proof (induction cands arbitrary: m ud ut)
  case Nil
  then show ?case by auto
next
  case (Cons c cands)
  obtain d t where c: "c = (d, t)" by (cases c)
  show ?case
  proof (cases "d \<notin> ud \<and> t \<notin> ut")
    case True
    have g: "greedy_match cands (m @ [(d, t)], insert d ud, insert t ut) = (m', ud', ut')"
      using Cons.prems(1) True c by simp
    have "ud' = fst ` set m' \<and> ut' = snd ` set m' \<and> distinct (map fst m') \<and>
          distinct (map snd m') \<and> set m' \<subseteq> set (m @ [(d, t)]) \<union> set cands"
      using True Cons.prems(2-5) by (intro Cons.IH[OF g]) auto
    then show ?thesis using c by auto
  next
    case False
    have g: "greedy_match cands (m, ud, ut) = (m', ud', ut')"
      using Cons.prems(1) False c by auto
    have "ud' = fst ` set m' \<and> ut' = snd ` set m' \<and> distinct (map fst m') \<and>
          distinct (map snd m') \<and> set m' \<subseteq> set m \<union> set cands"
      using Cons.prems(2-5) by (intro Cons.IH[OF g]) auto
    then show ?thesis by auto
  qed
qed

lemma set_argsort: "set (argsort xs) = {0..<length xs}"
  by (simp add: argsort_def)

lemma associate_props_conj:
  assumes "associate dets trks thr = (m, ud, ut)"
  shows "distinct (map fst m) \<and> distinct (map snd m) \<and>
      fst ` set m \<subseteq> {0..<length dets} \<and> snd ` set m \<subseteq> {0..<length trks} \<and>
      ut = filter (\<lambda>t. t \<notin> snd ` set m) [0..<length trks] \<and>
      ud = filter (\<lambda>d. d \<notin> fst ` set m) [0..<length dets]"
proof (cases "length trks = 0")
  case True
  then show ?thesis using assms by (auto simp: associate_def)
next
  case False
  define iou_matrix where "iou_matrix = map (\<lambda>det. map (\<lambda>track. compute_iou det (get_state track)) trks) dets"
  define coords where "coords = concat (map (\<lambda>d. map (\<lambda>t. (d, t))
                      (filter (\<lambda>t. iou_matrix ! d ! t \<ge> thr) [0..<length trks]))
                      [0..<length dets])"
  define cands where "cands = map (\<lambda>idx. coords ! idx) (argsort (map uminus (map (\<lambda>(d, t). iou_matrix ! d ! t) coords)))"
  obtain m0 ud0 ut0 where g: "greedy_match cands ([], {}, {}) = (m0, ud0, ut0)"
    by (cases "greedy_match cands ([], {}, {})") auto
  have a: "associate dets trks thr =
     (m0, filter (\<lambda>d. d \<notin> ud0) [0..<length dets], filter (\<lambda>t. t \<notin> ut0) [0..<length trks])"
    using False g unfolding associate_def Let_def iou_matrix_def[symmetric] coords_def[symmetric] cands_def[symmetric]
    by simp
  have inv: "ud0 = fst ` set m0 \<and> ut0 = snd ` set m0 \<and> distinct (map fst m0) \<and>
       distinct (map snd m0) \<and> set m0 \<subseteq> set [] \<union> set cands"
    by (rule greedy_match_inv[OF g]) auto
  have cs: "set cands \<subseteq> set coords"
    unfolding cands_def by (auto simp: set_argsort)
  have cr: "set coords \<subseteq> {0..<length dets} \<times> {0..<length trks}"
    unfolding coords_def by auto
  have m: "m = m0" "ud = filter (\<lambda>d. d \<notin> ud0) [0..<length dets]" "ut = filter (\<lambda>t. t \<notin> ut0) [0..<length trks]"
    using a assms by auto
  have sub: "set m0 \<subseteq> {0..<length dets} \<times> {0..<length trks}" using inv cs cr by auto
  have f: "fst ` set m0 \<subseteq> {0..<length dets}" "snd ` set m0 \<subseteq> {0..<length trks}"
    using sub by auto
  show ?thesis using inv m f by simp
qed

lemma associate_props:
  assumes "associate dets trks thr = (m, ud, ut)"
  shows "distinct (map fst m)" and "distinct (map snd m)"
    and "fst ` set m \<subseteq> {0..<length dets}" and "snd ` set m \<subseteq> {0..<length trks}"
    and "ut = filter (\<lambda>t. t \<notin> snd ` set m) [0..<length trks]"
    and "ud = filter (\<lambda>d. d \<notin> fst ` set m) [0..<length dets]"
  using associate_props_conj[OF assms] by blast+

lemma filter_positions: "map (\<lambda>i. xs ! i) (filter (\<lambda>i. P (xs ! i)) [0..<length xs]) = filter P xs"
proof -
  have "filter P xs = filter P (map (\<lambda>i. xs ! i) [0..<length xs])" by (simp add: map_nth)
  also have "\<dots> = map (\<lambda>i. xs ! i) (filter (\<lambda>i. P (xs ! i)) [0..<length xs])"
    by (simp add: filter_map comp_def)
  finally show ?thesis by simp
qed

lemma high_positions_conf: "map (\<lambda>i. detections ! i) (high_positions bt detections) = high_conf bt detections"
  unfolding high_positions_def high_conf_def by (rule filter_positions)

lemma low_positions_conf: "map (\<lambda>i. detections ! i) (low_positions bt detections) = low_conf bt detections"
  unfolding low_positions_def low_conf_def by (rule filter_positions)

lemma distinct_map_nth:
  assumes "distinct xs" and "distinct js" and "set js \<subseteq> {0..<length xs}"
  shows "distinct (map (\<lambda>j. xs ! j) js)"
proof -
  have "inj_on (\<lambda>j. xs ! j) (set js)"
  proof (rule inj_onI)
    fix x y assume h: "x \<in> set js" "y \<in> set js" "xs ! x = xs ! y"
    then have "x < length xs" "y < length xs" using assms(3) by auto
    then show "x = y" using nth_eq_iff_index_eq[OF assms(1)] h(3) by blast
  qed
  then show ?thesis using assms(2) by (simp add: distinct_map)
qed

lemma second_round_props:
  assumes "distinct unmatched_trks"
  shows "distinct (map fst (second_round low trks unmatched_trks))"
    and "distinct (map snd (second_round low trks unmatched_trks))"
    and "fst ` set (second_round low trks unmatched_trks) \<subseteq> {0..<length low}"
    and "snd ` set (second_round low trks unmatched_trks) \<subseteq> set unmatched_trks"
proof -
  obtain ml udl utl where a: "associate low (map (\<lambda>i. trks ! i) unmatched_trks) (1/2) = (ml, udl, utl)"
    by (cases "associate low (map (\<lambda>i. trks ! i) unmatched_trks) (1/2)") auto
  note p = associate_props[OF a]
  have sr: "second_round low trks unmatched_trks =
     (if length low > 0 \<and> length unmatched_trks > 0 then map (\<lambda>(d, t). (d, unmatched_trks ! t)) ml else [])"
    using a by (simp add: second_round_def)
  have f: "map fst (map (\<lambda>(d, t). (d, unmatched_trks ! t)) ml) = map fst ml"
    by (simp add: comp_def case_prod_beta)
  have s: "map snd (map (\<lambda>(d, t). (d, unmatched_trks ! t)) ml) = map (\<lambda>j. unmatched_trks ! j) (map snd ml)"
    by (simp add: comp_def case_prod_beta)
  have r: "set (map snd ml) \<subseteq> {0..<length unmatched_trks}" using p(4) by simp
  have ds: "distinct (map (\<lambda>j. unmatched_trks ! j) (map snd ml))"
    by (rule distinct_map_nth[OF assms p(2) r])
  show "distinct (map fst (second_round low trks unmatched_trks))"
    unfolding sr using p(1) by (simp add: comp_def case_prod_beta)
  show "distinct (map snd (second_round low trks unmatched_trks))"
    unfolding sr using ds by (simp add: comp_def case_prod_beta)
  show "fst ` set (second_round low trks unmatched_trks) \<subseteq> {0..<length low}"
    unfolding sr using p(3) by force
  show "snd ` set (second_round low trks unmatched_trks) \<subseteq> set unmatched_trks"
    unfolding sr using r by force
qed


lemma predict_all_length: "length (predict_all trks ts) = length trks"
  by (simp add: predict_all_def)

lemma first_matches_props:
  assumes "first_matches bt detections timestamp = (m, ud, ut)"
  shows "distinct (map fst m)" and "distinct (map snd m)"
    and "fst ` set m \<subseteq> {0..<length (high_conf bt detections)}"
    and "snd ` set m \<subseteq> {0..<length (tracked_stracks bt)}"
    and "ut = filter (\<lambda>t. t \<notin> snd ` set m) [0..<length (tracked_stracks bt)]"
    and "ud = filter (\<lambda>d. d \<notin> fst ` set m) [0..<length (high_conf bt detections)]"
  using associate_props[OF assms[unfolded first_matches_def]] by (simp_all add: predict_all_length)

lemma second_matches_props:
  assumes "first_matches bt detections timestamp = (m, ud, ut)"
  shows "distinct (map fst (second_matches bt detections timestamp))"
    and "distinct (map snd (second_matches bt detections timestamp))"
    and "fst ` set (second_matches bt detections timestamp) \<subseteq> {0..<length (low_conf bt detections)}"
    and "snd ` set (second_matches bt detections timestamp) \<subseteq> set ut"
proof -
  have d: "distinct ut" using first_matches_props(5)[OF assms] by simp
  obtain e trks2 where u: "update_matched m (high_conf bt detections) timestamp
                  (predict_all (tracked_stracks bt) timestamp) = (e, trks2)"
    by (cases "update_matched m (high_conf bt detections) timestamp (predict_all (tracked_stracks bt) timestamp)") auto
  have s: "second_matches bt detections timestamp =
           (case e of Some x \<Rightarrow> [] | None \<Rightarrow> second_round (low_conf bt detections) trks2 ut)"
    using assms u by (simp add: second_matches_def split: option.splits)
  note p = second_round_props[OF d, of "low_conf bt detections" trks2]
  show "distinct (map fst (second_matches bt detections timestamp))"
    unfolding s using p(1) by (cases e) auto
  show "distinct (map snd (second_matches bt detections timestamp))"
    unfolding s using p(2) by (cases e) auto
  show "fst ` set (second_matches bt detections timestamp) \<subseteq> {0..<length (low_conf bt detections)}"
    unfolding s using p(3) by (cases e) auto
  show "snd ` set (second_matches bt detections timestamp) \<subseteq> set ut"
    unfolding s using p(4) by (cases e) auto
qed

lemma length_high_positions: "length (high_positions bt detections) = length (high_conf bt detections)"
  using arg_cong[OF high_positions_conf[of detections bt], of length] by simp

lemma length_low_positions: "length (low_positions bt detections) = length (low_conf bt detections)"
  using arg_cong[OF low_positions_conf[of detections bt], of length] by simp

lemma positions_disjoint: "set (high_positions bt detections) \<inter> set (low_positions bt detections) = {}"
  by (auto simp: high_positions_def low_positions_def)

lemma positions_range:
  "set (high_positions bt detections) \<subseteq> {0..<length detections}"
  "set (low_positions bt detections) \<subseteq> {0..<length detections}"
  by (auto simp: high_positions_def low_positions_def)

lemma frame_pairs_snd:
  "map snd (frame_pairs bt detections timestamp) =
     map snd (fst (first_matches bt detections timestamp)) @ map snd (second_matches bt detections timestamp)"
  by (simp add: frame_pairs_def comp_def case_prod_beta)

lemma frame_pairs_fst:
  "map fst (frame_pairs bt detections timestamp) =
     map (\<lambda>d. high_positions bt detections ! d) (map fst (fst (first_matches bt detections timestamp))) @
     map (\<lambda>d. low_positions bt detections ! d) (map fst (second_matches bt detections timestamp))"
  by (simp add: frame_pairs_def comp_def case_prod_beta)

lemma frame_pairs_distinct_trks: "distinct (map snd (frame_pairs bt detections timestamp))"
proof -
  obtain m ud ut where f: "first_matches bt detections timestamp = (m, ud, ut)"
    by (cases "first_matches bt detections timestamp") auto
  note p = first_matches_props[OF f] and q = second_matches_props[OF f]
  have "set (map snd m) \<inter> set ut = {}" using p(5) by auto
  then have "set (map snd m) \<inter> set (map snd (second_matches bt detections timestamp)) = {}"
    using q(4) by auto
  then show ?thesis unfolding frame_pairs_snd using f p(2) q(2) by simp
qed

lemma frame_pairs_range_trks:
  "snd ` set (frame_pairs bt detections timestamp) \<subseteq> {0..<length (tracked_stracks bt)}"
proof -
  obtain m ud ut where f: "first_matches bt detections timestamp = (m, ud, ut)"
    by (cases "first_matches bt detections timestamp") auto
  note p = first_matches_props[OF f] and q = second_matches_props[OF f]
  have "set ut \<subseteq> {0..<length (tracked_stracks bt)}" using p(5) by auto
  then have "set (map snd (frame_pairs bt detections timestamp)) \<subseteq> {0..<length (tracked_stracks bt)}"
    unfolding frame_pairs_snd using f p(4) q(4) by auto
  then show ?thesis by simp
qed

lemma frame_pairs_distinct_dets: "distinct (map fst (frame_pairs bt detections timestamp))"
proof -
  obtain m ud ut where f: "first_matches bt detections timestamp = (m, ud, ut)"
    by (cases "first_matches bt detections timestamp") auto
  note p = first_matches_props[OF f] and q = second_matches_props[OF f]
  have dh: "distinct (high_positions bt detections)" "distinct (low_positions bt detections)"
    by (simp_all add: high_positions_def low_positions_def)
  have rh: "set (map fst m) \<subseteq> {0..<length (high_positions bt detections)}"
    using p(3) by (simp add: length_high_positions)
  have rl: "set (map fst (second_matches bt detections timestamp)) \<subseteq> {0..<length (low_positions bt detections)}"
    using q(3) by (simp add: length_low_positions)
  have d1: "distinct (map (\<lambda>d. high_positions bt detections ! d) (map fst m))"
    by (rule distinct_map_nth[OF dh(1) p(1) rh])
  have d2: "distinct (map (\<lambda>d. low_positions bt detections ! d) (map fst (second_matches bt detections timestamp)))"
    by (rule distinct_map_nth[OF dh(2) q(1) rl])
  have s1: "set (map (\<lambda>d. high_positions bt detections ! d) (map fst m)) \<subseteq> set (high_positions bt detections)"
    using rh by auto
  have s2: "set (map (\<lambda>d. low_positions bt detections ! d) (map fst (second_matches bt detections timestamp)))
              \<subseteq> set (low_positions bt detections)"
    using rl by auto
  have dj: "set (map (\<lambda>d. high_positions bt detections ! d) (map fst m)) \<inter>
            set (map (\<lambda>d. low_positions bt detections ! d) (map fst (second_matches bt detections timestamp))) = {}"
    using s1 s2 positions_disjoint[of bt detections] by blast
  show ?thesis unfolding frame_pairs_fst using f d1 d2 dj by (simp only: distinct_append fst_conv)
qed

lemma frame_pairs_range_dets:
  "fst ` set (frame_pairs bt detections timestamp) \<subseteq> {0..<length detections}"
proof -
  obtain m ud ut where f: "first_matches bt detections timestamp = (m, ud, ut)"
    by (cases "first_matches bt detections timestamp") auto
  note p = first_matches_props[OF f] and q = second_matches_props[OF f]
  have rh: "set (map fst m) \<subseteq> {0..<length (high_positions bt detections)}"
    using p(3) by (simp add: length_high_positions)
  have rl: "set (map fst (second_matches bt detections timestamp)) \<subseteq> {0..<length (low_positions bt detections)}"
    using q(3) by (simp add: length_low_positions)
  have s1: "set (map (\<lambda>d. high_positions bt detections ! d) (map fst m)) \<subseteq> set (high_positions bt detections)"
    using rh by auto
  have s2: "set (map (\<lambda>d. low_positions bt detections ! d) (map fst (second_matches bt detections timestamp)))
              \<subseteq> set (low_positions bt detections)"
    using rl by auto
  have "set (map fst (frame_pairs bt detections timestamp)) \<subseteq> {0..<length detections}"
    unfolding frame_pairs_fst using f s1 s2 positions_range[of bt detections] by (simp only: set_append fst_conv) blast
  then show ?thesis by simp
qed

lemma associate_tracks_eq:
  "associate_tracks bt detections timestamp =
     (case first_matches bt detections timestamp of
        (matches, unmatched_dets, unmatched_trks) \<Rightarrow>
          (case update_matched matches (high_conf bt detections) timestamp
                  (predict_all (tracked_stracks bt) timestamp) of
             (Some e, trks2) \<Rightarrow> (Some e, trks2, unmatched_dets)
           | (None, trks2) \<Rightarrow>
               (case update_matched (second_matches bt detections timestamp)
                       (low_conf bt detections) timestamp trks2 of
                  (e, trks3) \<Rightarrow> (e, trks3, unmatched_dets))))"
  by (simp add: associate_tracks_def first_matches_def second_matches_def Let_def
           split: prod.splits option.splits)


lemma associate_tracks_length:
  assumes "associate_tracks bt detections timestamp = (e, trks, ud)"
  shows "length trks = length (tracked_stracks bt)"
proof -
  have "length (fst (snd (associate_tracks bt detections timestamp))) = length (tracked_stracks bt)"
    unfolding associate_tracks_eq
    by (auto split: prod.splits option.splits
             simp: predict_all_length dest!: arg_cong[where f = "\<lambda>r. length (snd r)"]
                   simp: update_matched_length)
  then show ?thesis using assms by simp
qed

lemma associate_tracks_ids:
  assumes "associate_tracks bt detections timestamp = (e, trks, ud)"
  shows "map trk_id trks = map trk_id (tracked_stracks bt)"
proof -
  have p: "map trk_id (predict_all (tracked_stracks bt) timestamp) = map trk_id (tracked_stracks bt)"
    by (simp add: predict_all_def predict_snd comp_def)
  have "map trk_id (fst (snd (associate_tracks bt detections timestamp))) = map trk_id (tracked_stracks bt)"
    unfolding associate_tracks_eq
    by (auto split: prod.splits option.splits
             dest!: arg_cong[where f = "\<lambda>r. map trk_id (snd r)"]
             simp: update_matched_ids p)
  then show ?thesis using assms by simp
qed

lemma associate_tracks_untouched:
  assumes "associate_tracks bt detections timestamp = (e, trks, ud)"
      and "i \<notin> snd ` set (frame_pairs bt detections timestamp)"
      and "i < length (tracked_stracks bt)"
  shows "trks ! i = snd (KalmanBoxTracker_predict (tracked_stracks bt ! i) timestamp)"
proof -
  obtain m ud' ut where f: "first_matches bt detections timestamp = (m, ud', ut)"
    by (cases "first_matches bt detections timestamp") auto
  have n: "i \<notin> snd ` set m" "i \<notin> snd ` set (second_matches bt detections timestamp)"
    using assms(2) f frame_pairs_snd[of bt detections timestamp]
    by (metis Un_iff fst_conv set_append set_map)+
  define trks1 where "trks1 = predict_all (tracked_stracks bt) timestamp"
  have p: "trks1 ! i = snd (KalmanBoxTracker_predict (tracked_stracks bt ! i) timestamp)"
    using assms(3) by (simp add: trks1_def predict_all_def)
  obtain e1 trks2 where u1: "update_matched m (high_conf bt detections) timestamp trks1 = (e1, trks2)"
    by (cases "update_matched m (high_conf bt detections) timestamp trks1") auto
  have t2: "trks2 ! i = trks1 ! i"
    using update_matched_untouched[OF n(1), of "high_conf bt detections" timestamp trks1] u1 by simp
  show ?thesis
  proof (cases e1)
    case (Some x)
    then have "trks = trks2"
      using assms(1) f u1 unfolding associate_tracks_eq trks1_def[symmetric] by simp
    then show ?thesis using t2 p by simp
  next
    case None
    obtain e3 trks3 where u3: "update_matched (second_matches bt detections timestamp)
                       (low_conf bt detections) timestamp trks2 = (e3, trks3)"
      by (cases "update_matched (second_matches bt detections timestamp) (low_conf bt detections) timestamp trks2") auto
    have t3: "trks3 ! i = trks2 ! i"
      using update_matched_untouched[OF n(2), of "low_conf bt detections" timestamp trks2] u3 by simp
    have "trks = trks3"
      using assms(1) f u1 u3 None unfolding associate_tracks_eq trks1_def[symmetric] by simp
    then show ?thesis using t3 t2 p by simp
  qed
qed

lemma init_new_tracks_fields:
  "lost_stracks (init_new_tracks dets ts bt) = lost_stracks bt \<and>
   track_buffer (init_new_tracks dets ts bt) = track_buffer bt \<and>
   track_thresh (init_new_tracks dets ts bt) = track_thresh bt \<and>
   match_thresh (init_new_tracks dets ts bt) = match_thresh bt \<and>
   frame_id (init_new_tracks dets ts bt) = frame_id bt"
  by (induction dets ts bt rule: init_new_tracks.induct)
     (auto simp: KalmanBoxTracker_init_def Let_def)

lemma init_new_tracks_tracked:
  "\<exists>new. tracked_stracks (init_new_tracks dets ts bt) = tracked_stracks bt @ new \<and>
         map trk_id new = [kbt_count bt .. kbt_count (init_new_tracks dets ts bt) - 1] \<and>
         kbt_count bt \<le> kbt_count (init_new_tracks dets ts bt) \<and>
         list_all (\<lambda>t. time_since_update t = 0 \<and> hit_streak t = 0) new"
proof (induction dets ts bt rule: init_new_tracks.induct)
  case (1 ts bt)
  then show ?case by simp
next
  case (2 det dets ts bt)
  show ?case
  proof (cases "bb_confidence det \<ge> track_thresh bt")
    case False
    then show ?thesis using 2 by simp
  next
    case True
    define t0 where "t0 = fst (KalmanBoxTracker_init (kbt_count bt) det ts)"
    define bt1 where "bt1 = bt\<lparr> kbt_count := kbt_count bt + 1,
                     tracked_stracks := tracked_stracks bt @ [t0],
                     total_tracks := total_tracks bt + 1 \<rparr>"
    have step: "init_new_tracks (det # dets) ts bt = init_new_tracks dets ts bt1"
      using True by (simp add: bt1_def t0_def KalmanBoxTracker_init_def)
    have e: "(if bb_confidence det \<ge> track_thresh bt
        then (let (new_track, cnt) = KalmanBoxTracker_init (kbt_count bt) det ts
              in bt\<lparr> kbt_count := cnt,
                     tracked_stracks := tracked_stracks bt @ [new_track],
                     total_tracks := total_tracks bt + 1 \<rparr>)
        else bt) = bt1"
      using True by (simp add: bt1_def t0_def KalmanBoxTracker_init_def)
    obtain new where n: "tracked_stracks (init_new_tracks dets ts bt1) = tracked_stracks bt1 @ new"
         "map trk_id new = [kbt_count bt1 .. kbt_count (init_new_tracks dets ts bt1) - 1]"
         "kbt_count bt1 \<le> kbt_count (init_new_tracks dets ts bt1)"
         "list_all (\<lambda>t. time_since_update t = 0 \<and> hit_streak t = 0) new"
      using 2 unfolding e by blast
    have t0: "trk_id t0 = kbt_count bt" "time_since_update t0 = 0" "hit_streak t0 = 0"
      by (simp_all add: t0_def KalmanBoxTracker_init_def)
    have c1: "kbt_count bt1 = kbt_count bt + 1" by (simp add: bt1_def)
    have u: "[kbt_count bt .. kbt_count (init_new_tracks dets ts bt1) - 1] =
             kbt_count bt # [kbt_count bt + 1 .. kbt_count (init_new_tracks dets ts bt1) - 1]"
      using n(3) c1 by (simp add: upto_rec1)
    have "tracked_stracks (init_new_tracks (det # dets) ts bt) = tracked_stracks bt @ (t0 # new) \<and>
         map trk_id (t0 # new) = [kbt_count bt .. kbt_count (init_new_tracks (det # dets) ts bt) - 1] \<and>
         kbt_count bt \<le> kbt_count (init_new_tracks (det # dets) ts bt) \<and>
         list_all (\<lambda>t. time_since_update t = 0 \<and> hit_streak t = 0) (t0 # new)"
      unfolding step using n t0 c1 u by (simp add: bt1_def)
    then show ?thesis by blast
  qed
qed


lemma ByteTracker_update_err:
  assumes "associate_tracks bt detections timestamp = (Some e, trks, ud)"
  shows "ByteTracker_update bt detections timestamp =
           (Inl e, bt\<lparr> frame_id := frame_id bt + 1, tracked_stracks := trks \<rparr>)"
  using assms by (simp add: ByteTracker_update_def)

lemma ByteTracker_update_ok:
  assumes "associate_tracks bt detections timestamp = (None, trks, ud)"
  shows "ByteTracker_update bt detections timestamp =
    (Inr (tracking_data_of (filter (\<lambda>t. time_since_update t \<le> track_buffer bt)
                              (tracked_stracks (spawned bt detections timestamp trks ud))) timestamp),
     (spawned bt detections timestamp trks ud)
       \<lparr> tracked_stracks := filter (\<lambda>t. time_since_update t \<le> track_buffer bt)
                              (tracked_stracks (spawned bt detections timestamp trks ud)),
         lost_stracks := filter (\<lambda>t. time_since_update t \<le> track_buffer bt)
                           (lost_stracks bt @ rev (filter (\<lambda>t. time_since_update t > track_buffer bt)
                              (tracked_stracks (spawned bt detections timestamp trks ud)))),
         active_tracks := int (length (tracking_data_of (filter (\<lambda>t. time_since_update t \<le> track_buffer bt)
                              (tracked_stracks (spawned bt detections timestamp trks ud))) timestamp)) \<rparr>)"
proof -
  have f: "track_buffer (spawned bt detections timestamp trks ud) = track_buffer bt"
          "lost_stracks (spawned bt detections timestamp trks ud) = lost_stracks bt"
    unfolding spawned_def by (simp_all add: init_new_tracks_fields)
  show ?thesis
    using assms f unfolding ByteTracker_update_def Let_def spawned_def[symmetric]
    by (simp add: pop_lost_filter)
qed

lemma update_track_buffer: "track_buffer (snd (ByteTracker_update bt detections timestamp)) = track_buffer bt"
proof -
  obtain e trks ud where a: "associate_tracks bt detections timestamp = (e, trks, ud)"
    by (cases "associate_tracks bt detections timestamp") auto
  show ?thesis
  proof (cases e)
    case None
    then show ?thesis using ByteTracker_update_ok[of bt detections timestamp trks ud] a
      by (simp add: spawned_def init_new_tracks_fields)
  next
    case (Some x)
    then show ?thesis using ByteTracker_update_err[of bt detections timestamp x trks ud] a by simp
  qed
qed

lemma update_lost_stracks:
  "lost_stracks bt = [] \<Longrightarrow> lost_stracks (snd (ByteTracker_update bt detections timestamp)) = []"
proof -
  assume l: "lost_stracks bt = []"
  obtain e trks ud where a: "associate_tracks bt detections timestamp = (e, trks, ud)"
    by (cases "associate_tracks bt detections timestamp") auto
  show ?thesis
  proof (cases e)
    case None
    have "filter (\<lambda>t. time_since_update t \<le> track_buffer bt)
            (rev (filter (\<lambda>t. time_since_update t > track_buffer bt) xs)) = []" for xs
      by (induction xs) auto
    then show ?thesis using ByteTracker_update_ok[of bt detections timestamp trks ud] a None l
      by simp
  next
    case (Some x)
    then show ?thesis using ByteTracker_update_err[of bt detections timestamp x trks ud] a l by simp
  qed
qed

lemma spawned_tracked:
  assumes "associate_tracks bt detections timestamp = (e, trks, ud)"
  shows "\<exists>new. tracked_stracks (spawned bt detections timestamp trks ud) = trks @ new \<and>
           map trk_id new = [kbt_count bt .. kbt_count (spawned bt detections timestamp trks ud) - 1] \<and>
           kbt_count bt \<le> kbt_count (spawned bt detections timestamp trks ud) \<and>
           list_all (\<lambda>t. time_since_update t = 0 \<and> hit_streak t = 0) new"
  using init_new_tracks_tracked[of "map (\<lambda>i. high_conf bt detections ! i) ud" timestamp
          "bt\<lparr> frame_id := frame_id bt + 1, tracked_stracks := trks \<rparr>"]
  unfolding spawned_def by simp

text \<open>One call: the counter, the new identities, the active identities.\<close>

lemma update_ids:
  assumes "id_inv bt"
  shows "kbt_count bt \<le> kbt_count (snd (ByteTracker_update bt detections timestamp))"
    and "map trk_id (new_tracks bt detections timestamp) =
           [kbt_count bt .. kbt_count (snd (ByteTracker_update bt detections timestamp)) - 1]"
    and "id_inv (snd (ByteTracker_update bt detections timestamp))"
    and "set (ids (snd (ByteTracker_update bt detections timestamp)))
           \<subseteq> set (ids bt) \<union> set (map trk_id (new_tracks bt detections timestamp))"
proof -
  obtain e trks ud where a: "associate_tracks bt detections timestamp = (e, trks, ud)"
    by (cases "associate_tracks bt detections timestamp") auto
  note i = associate_tracks_ids[OF a]
  have all: "kbt_count bt \<le> kbt_count (snd (ByteTracker_update bt detections timestamp)) \<and>
      map trk_id (new_tracks bt detections timestamp) =
           [kbt_count bt .. kbt_count (snd (ByteTracker_update bt detections timestamp)) - 1] \<and>
      id_inv (snd (ByteTracker_update bt detections timestamp)) \<and>
      set (ids (snd (ByteTracker_update bt detections timestamp)))
           \<subseteq> set (ids bt) \<union> set (map trk_id (new_tracks bt detections timestamp))"
  proof (cases e)
    case (Some x)
    have u: "ByteTracker_update bt detections timestamp =
           (Inl x, bt\<lparr> frame_id := frame_id bt + 1, tracked_stracks := trks \<rparr>)"
      using ByteTracker_update_err a Some by simp
    have n: "new_tracks bt detections timestamp = []" using a Some by (simp add: new_tracks_def)
    show ?thesis using assms i unfolding u n by (simp add: id_inv_def ids_def)
  next
    case None
    define bt2 where "bt2 = spawned bt detections timestamp trks ud"
    obtain new where s: "tracked_stracks bt2 = trks @ new"
        "map trk_id new = [kbt_count bt .. kbt_count bt2 - 1]"
        "kbt_count bt \<le> kbt_count bt2"
      using spawned_tracked[OF a] unfolding bt2_def by blast
    have n: "new_tracks bt detections timestamp = new"
      using a None s(1) unfolding new_tracks_def bt2_def spawned_def by simp
    note u = ByteTracker_update_ok[OF a[unfolded None], folded bt2_def]
    have c: "kbt_count (snd (ByteTracker_update bt detections timestamp)) = kbt_count bt2"
      unfolding u by simp
    have t: "tracked_stracks (snd (ByteTracker_update bt detections timestamp)) =
               filter (\<lambda>t. time_since_update t \<le> track_buffer bt) (trks @ new)"
      unfolding u using s(1) by simp
    have old: "sorted_wrt (<) (map trk_id trks)" "list_all (\<lambda>i. i < kbt_count bt) (map trk_id trks)"
      using assms i by (simp_all add: id_inv_def ids_def)
    have nw: "sorted_wrt (<) (map trk_id new)" "list_all (\<lambda>i. kbt_count bt \<le> i \<and> i < kbt_count bt2) (map trk_id new)"
      unfolding s(2) by (simp_all add: strict_sorted_iff list_all_iff)
    have sw: "sorted_wrt (<) (map trk_id (trks @ new))"
      using old nw by (auto simp: sorted_wrt_append list_all_iff) (meson less_le_trans)
    have la: "list_all (\<lambda>i. i < kbt_count bt2) (map trk_id (trks @ new))"
      using old(2) nw(2) s(3) by (auto simp: list_all_iff)
    have sf: "sorted_wrt (<) (map trk_id (filter (\<lambda>t. time_since_update t \<le> track_buffer bt) (trks @ new)))"
      using sw unfolding sorted_wrt_map by (rule sorted_wrt_filter)
    have lf: "list_all (\<lambda>i. i < kbt_count bt2) (map trk_id (filter (\<lambda>t. time_since_update t \<le> track_buffer bt) (trks @ new)))"
      using la by (auto simp: list_all_iff)
    have inv: "id_inv (snd (ByteTracker_update bt detections timestamp))"
      unfolding id_inv_def ids_def t c using sf lf by simp
    have sub: "set (ids (snd (ByteTracker_update bt detections timestamp)))
           \<subseteq> set (ids bt) \<union> set (map trk_id (new_tracks bt detections timestamp))"
      unfolding ids_def t n using i by (auto simp: ids_def) (metis image_eqI list.set_map)
    show ?thesis using s(3) s(2) inv sub unfolding c n by simp
  qed
  show "kbt_count bt \<le> kbt_count (snd (ByteTracker_update bt detections timestamp))"
    and "map trk_id (new_tracks bt detections timestamp) =
           [kbt_count bt .. kbt_count (snd (ByteTracker_update bt detections timestamp)) - 1]"
    and "id_inv (snd (ByteTracker_update bt detections timestamp))"
    and "set (ids (snd (ByteTracker_update bt detections timestamp)))
           \<subseteq> set (ids bt) \<union> set (map trk_id (new_tracks bt detections timestamp))"
    using all by blast+
qed

section \<open>Association\<close>

text \<open>
  C5: in one \<open>update\<close> call, over both association rounds, no detection position and
  no track index occurs in two matched pairs; every pair names a detection of the input
  list and a track of the active list.
\<close>

theorem frame_pairs_one_to_one:
  "distinct (map fst (frame_pairs bt detections timestamp)) \<and>
   distinct (map snd (frame_pairs bt detections timestamp)) \<and>
   fst ` set (frame_pairs bt detections timestamp) \<subseteq> {0..<length detections} \<and>
   snd ` set (frame_pairs bt detections timestamp) \<subseteq> {0..<length (tracked_stracks bt)}"
  using frame_pairs_distinct_dets frame_pairs_distinct_trks frame_pairs_range_dets
        frame_pairs_range_trks
  by blast

section \<open>The lost list\<close>

lemma reset_lost_stracks: "lost_stracks (ByteTracker_reset bt) = []"
  by (simp add: ByteTracker_reset_def)

lemma run_calls_lost: "lost_stracks bt = [] \<Longrightarrow> lost_stracks (run_calls bt calls) = []"
proof (induction calls arbitrary: bt)
  case Nil
  then show ?case by simp
next
  case (Cons c calls)
  then show ?case
    by (cases c) (simp_all add: update_lost_stracks reset_lost_stracks)
qed

text \<open>
  C10: after any sequence of \<open>update\<close> and \<open>reset\<close> calls on a new tracker the lost
  list is empty, and \<open>get_performance_stats\<close> reports \<open>lost_tracks = 0\<close>.
\<close>

theorem lost_list_always_empty:
  "lost_stracks (run_calls (ByteTracker_init cnt thresh buffer mthresh rate) calls) = [] \<and>
   stats_lost_tracks (get_performance_stats
      (run_calls (ByteTracker_init cnt thresh buffer mthresh rate) calls)) = 0"
proof -
  have "lost_stracks (ByteTracker_init cnt thresh buffer mthresh rate) = []"
    by (simp add: ByteTracker_init_def)
  then have "lost_stracks (run_calls (ByteTracker_init cnt thresh buffer mthresh rate) calls) = []"
    by (rule run_calls_lost)
  then show ?thesis by (simp add: get_performance_stats_def)
qed

section \<open>Sessions: identities and eviction\<close>

lemma reset_id_inv: "id_inv (ByteTracker_reset bt)"
  by (simp add: id_inv_def ids_def ByteTracker_reset_def)

lemma upto_join:
  fixes c c1 c2 :: int
  assumes "c \<le> c1" and "c1 \<le> c2"
  shows "[c .. c1 - 1] @ [c1 .. c2 - 1] = [c .. c2 - 1]"
proof (cases "c1 \<le> c2 - 1")
  case True
  then show ?thesis using assms upto_split1[of c c1 "c2 - 1"] by simp
next
  case False
  then have "c1 = c2" using assms by simp
  then show ?thesis by simp
qed

lemma run_calls_ids:
  assumes "id_inv bt" and "Reset \<notin> set calls"
  shows "kbt_count bt \<le> kbt_count (run_calls bt calls) \<and>
         created_ids bt calls = [kbt_count bt .. kbt_count (run_calls bt calls) - 1] \<and>
         id_inv (run_calls bt calls) \<and>
         set (ids (run_calls bt calls)) \<subseteq> set (ids bt) \<union> set (created_ids bt calls)"
  using assms
proof (induction calls arbitrary: bt)
  case Nil
  then show ?case by simp
next
  case (Cons c calls)
  then obtain detections timestamp where c: "c = Update detections timestamp"
    by (cases c) auto
  define bt1 where "bt1 = snd (ByteTracker_update bt detections timestamp)"
  note u = update_ids[OF Cons.prems(1), of detections timestamp, folded bt1_def]
  have nr: "Reset \<notin> set calls" using Cons.prems(2) by simp
  note ih = Cons.IH[OF u(3) nr]
  have cr: "created_ids bt (c # calls) =
              [kbt_count bt .. kbt_count bt1 - 1] @ [kbt_count bt1 .. kbt_count (run_calls bt1 calls) - 1]"
    unfolding c using u(2) ih by (simp add: bt1_def)
  have j: "created_ids bt (c # calls) = [kbt_count bt .. kbt_count (run_calls bt1 calls) - 1]"
    unfolding cr using upto_join[OF u(1)] ih by simp
  have r: "run_calls bt (c # calls) = run_calls bt1 calls" unfolding c bt1_def by simp
  have s: "set (ids (run_calls bt1 calls)) \<subseteq> set (ids bt) \<union> set (created_ids bt (c # calls))"
    using ih u(4) u(2) unfolding cr by auto
  show ?case unfolding r using j ih u(1) s by auto
qed

lemma run_frames_absent:
  assumes "id_inv bt" and "k < kbt_count bt" and "k \<notin> set (ids bt)"
  shows "k \<notin> set (ids (run_frames bt frames))"
  using assms
proof (induction frames arbitrary: bt)
  case Nil
  then show ?case by simp
next
  case (Cons f frames)
  obtain detections timestamp where f: "f = (detections, timestamp)" by (cases f)
  define bt1 where "bt1 = snd (ByteTracker_update bt detections timestamp)"
  note u = update_ids[OF Cons.prems(1), of detections timestamp, folded bt1_def]
  have a: "k \<notin> set (ids bt1)" using u(4) u(2) Cons.prems(2,3) by auto
  have b: "k < kbt_count bt1" using u(1) Cons.prems(2) by simp
  show ?case unfolding f using Cons.IH[OF u(3) b a] by (simp add: bt1_def)
qed

lemma miss_step:
  assumes inv: "id_inv bt"
      and t: "t \<in> set (tracked_stracks bt)" "trk_id t = k" "time_since_update t = n"
      and miss: "k \<notin> set (matched_ids bt detections timestamp)"
      and ok: "isl (fst (ByteTracker_update bt detections timestamp)) = False"
  shows "if n + 1 \<le> track_buffer bt
         then \<exists>t' \<in> set (tracked_stracks (snd (ByteTracker_update bt detections timestamp))).
                 trk_id t' = k \<and> time_since_update t' = n + 1
         else k \<notin> set (ids (snd (ByteTracker_update bt detections timestamp)))"
proof -
  obtain i where i: "i < length (tracked_stracks bt)" "tracked_stracks bt ! i = t"
    using t(1) by (auto simp: in_set_conv_nth)
  have ni: "i \<notin> snd ` set (frame_pairs bt detections timestamp)"
  proof
    assume "i \<in> snd ` set (frame_pairs bt detections timestamp)"
    then obtain d where "(d, i) \<in> set (frame_pairs bt detections timestamp)" by auto
    then have "trk_id (tracked_stracks bt ! i) \<in> set (matched_ids bt detections timestamp)"
      unfolding matched_ids_def by force
    then show False using miss i(2) t(2) by simp
  qed
  obtain e trks ud where a: "associate_tracks bt detections timestamp = (e, trks, ud)"
    by (cases "associate_tracks bt detections timestamp") auto
  have e: "e = None"
  proof (cases e)
    case (Some x)
    then show ?thesis using ByteTracker_update_err[of bt detections timestamp x trks ud] a ok by simp
  qed simp
  define bt2 where "bt2 = spawned bt detections timestamp trks ud"
  obtain new where s: "tracked_stracks bt2 = trks @ new"
      "map trk_id new = [kbt_count bt .. kbt_count bt2 - 1]"
    using spawned_tracked[OF a] unfolding bt2_def by blast
  note u = ByteTracker_update_ok[OF a[unfolded e], folded bt2_def]
  have tr: "tracked_stracks (snd (ByteTracker_update bt detections timestamp)) =
               filter (\<lambda>t. time_since_update t \<le> track_buffer bt) (trks @ new)"
    unfolding u using s(1) by simp
  have ti: "trks ! i = snd (KalmanBoxTracker_predict t timestamp)"
    using associate_tracks_untouched[OF a ni i(1)] i(2) by simp
  have tf: "trk_id (trks ! i) = k" "time_since_update (trks ! i) = n + 1"
    unfolding ti predict_snd using t by simp_all
  have len: "length trks = length (tracked_stracks bt)" by (rule associate_tracks_length[OF a])
  have mem: "trks ! i \<in> set (trks @ new)" using i(1) len by simp
  show ?thesis
  proof (cases "n + 1 \<le> track_buffer bt")
    case True
    then have "trks ! i \<in> set (tracked_stracks (snd (ByteTracker_update bt detections timestamp)))"
      unfolding tr using mem tf(2) by simp
    then show ?thesis using True tf by auto
  next
    case False
    have "k \<notin> set (ids (snd (ByteTracker_update bt detections timestamp)))"
    proof
      assume "k \<in> set (ids (snd (ByteTracker_update bt detections timestamp)))"
      then obtain x where x: "x \<in> set (trks @ new)" "time_since_update x \<le> track_buffer bt" "trk_id x = k"
        unfolding ids_def tr by auto
      have kc: "k < kbt_count bt"
        using inv t(1,2) by (auto simp: id_inv_def ids_def list_all_iff)
      have "x \<notin> set new"
      proof
        assume "x \<in> set new"
        then have "trk_id x \<in> set (map trk_id new)" by simp
        then show False unfolding s(2) using kc x(3) by simp
      qed
      then have "x \<in> set trks" using x(1) by simp
      then obtain j where j: "j < length trks" "trks ! j = x" by (auto simp: in_set_conv_nth)
      have d: "distinct (map trk_id trks)"
        using inv associate_tracks_ids[OF a] by (simp add: id_inv_def ids_def strict_sorted_iff)
      have "map trk_id trks ! j = map trk_id trks ! i"
        using j i(1) len x(3) tf(1) by simp
      moreover have "j < length (map trk_id trks)" "i < length (map trk_id trks)"
        using j(1) i(1) len by simp_all
      ultimately have "j = i" using nth_eq_iff_index_eq[OF d] by blast
      then show False using j(2) x(2) tf(2) False by simp
    qed
    then show ?thesis using False by simp
  qed
qed

lemma miss_run:
  assumes "id_inv bt"
      and "t \<in> set (tracked_stracks bt)" "trk_id t = k" "time_since_update t = n"
      and "n \<le> track_buffer bt"
      and "missed_frames k bt frames"
  shows "if n + int (length frames) \<le> track_buffer bt
         then \<exists>t' \<in> set (tracked_stracks (run_frames bt frames)).
                 trk_id t' = k \<and> time_since_update t' = n + int (length frames)
         else k \<notin> set (ids (run_frames bt frames))"
  using assms
proof (induction frames arbitrary: bt t n)
  case Nil
  then show ?case by auto
next
  case (Cons f frames)
  obtain detections timestamp where f: "f = (detections, timestamp)" by (cases f)
  define bt1 where "bt1 = snd (ByteTracker_update bt detections timestamp)"
  have m: "k \<notin> set (matched_ids bt detections timestamp)"
          "isl (fst (ByteTracker_update bt detections timestamp)) = False"
          "missed_frames k bt1 frames"
    using Cons.prems(6) unfolding f bt1_def by simp_all
  note st = miss_step[OF Cons.prems(1-4) m(1,2), folded bt1_def]
  note u = update_ids[OF Cons.prems(1), of detections timestamp, folded bt1_def]
  have tb: "track_buffer bt1 = track_buffer bt" unfolding bt1_def by (rule update_track_buffer)
  have r: "run_frames bt (f # frames) = run_frames bt1 frames" unfolding f bt1_def by simp
  show ?case
  proof (cases "n + 1 \<le> track_buffer bt")
    case True
    then obtain t' where t': "t' \<in> set (tracked_stracks bt1)" "trk_id t' = k" "time_since_update t' = n + 1"
      using st by auto
    have "if (n + 1) + int (length frames) \<le> track_buffer bt1
         then \<exists>t'' \<in> set (tracked_stracks (run_frames bt1 frames)).
                 trk_id t'' = k \<and> time_since_update t'' = (n + 1) + int (length frames)
         else k \<notin> set (ids (run_frames bt1 frames))"
      using True tb by (intro Cons.IH[OF u(3) t' _ m(3)]) simp
    then show ?thesis unfolding r tb by (auto simp: algebra_simps)
  next
    case False
    then have a: "k \<notin> set (ids bt1)" using st by simp
    have "k < kbt_count bt"
      using Cons.prems(1-3) by (auto simp: id_inv_def ids_def list_all_iff)
    then have b: "k < kbt_count bt1" using u(1) by simp
    have "k \<notin> set (ids (run_frames bt1 frames))" by (rule run_frames_absent[OF u(3) b a])
    then show ?thesis unfolding r using False by simp
  qed
qed

section \<open>The Kalman update in closed form\<close>

lemma upt8: "[0..<8] = [0,1,2,3,4,5,6,7]" by code_simp
lemma upt4: "[0..<4] = [0,1,2,3]" by code_simp

lemma transition_dt_eq: "transition_dt dt =
  [[1,0,0,0,dt,0,0,0],[0,1,0,0,0,dt,0,0],[0,0,1,0,0,0,dt,0],[0,0,0,1,0,0,0,dt],
   [0,0,0,0,1,0,0,0],[0,0,0,0,0,1,0,0],[0,0,0,0,0,0,1,0],[0,0,0,0,0,0,0,1]]"
  by (simp add: transition_dt_def transition_def scale_block_def set_block_def eye_def upt8 upt4)

lemma measurement_eq: "measurement = [[1,0,0,0,0,0,0,0],[0,1,0,0,0,0,0,0],[0,0,1,0,0,0,0,0],[0,0,0,1,0,0,0,0]]"
  by (simp add: measurement_def set_block_def eye_def zeros_def upt8 upt4 eval_nat_numeral)

lemma process_noise_eq: "process_noise = 
  [[1/100,0,0,0,0,0,0,0],[0,1/100,0,0,0,0,0,0],[0,0,1/100,0,0,0,0,0],[0,0,0,1/100,0,0,0,0],
   [0,0,0,0,1/100,0,0,0],[0,0,0,0,0,1/100,0,0],[0,0,0,0,0,0,1/100,0],[0,0,0,0,0,0,0,1/100]]"
  by (simp add: process_noise_def scale_block_def eye_def upt8)

lemma initial_covariance_eq: "initial_covariance =
  [[1,0,0,0,0,0,0,0],[0,1,0,0,0,0,0,0],[0,0,1,0,0,0,0,0],[0,0,0,1,0,0,0,0],
   [0,0,0,0,1000,0,0,0],[0,0,0,0,0,1000,0,0],[0,0,0,0,0,0,1000,0],[0,0,0,0,0,0,0,1000]]"
  by (simp add: initial_covariance_def scale_block_def eye_def upt8)

lemma measurement_noise_eq: "measurement_noise = [[1/10,0,0,0],[0,1/10,0,0],[0,0,1/10,0],[0,0,0,1/10]]"
  by (simp add: measurement_noise_def mat_scale_def eye_def upt4)

lemma eye8: "eye 8 = [[1,0,0,0,0,0,0,0],[0,1,0,0,0,0,0,0],[0,0,1,0,0,0,0,0],[0,0,0,1,0,0,0,0],
   [0,0,0,0,1,0,0,0],[0,0,0,0,0,1,0,0],[0,0,0,0,0,0,1,0],[0,0,0,0,0,0,0,1]]"
  by (simp add: eye_def upt8)
lemma eye4: "eye 4 = [[1,0,0,0],[0,1,0,0],[0,0,1,0],[0,0,0,1]]"
  by (simp add: eye_def upt4)


lemma eye4S: "eye (Suc (Suc (Suc (Suc 0)))) = [[1,0,0,0],[0,1,0,0],[0,0,1,0],[0,0,0,1]]"
  by (simp add: eye_def)

lemmas mat_ops = mat_vec_def mat_mul_def mat_T_def mat_add_def mat_sub_def mat_scale_def vec_add_def vec_sub_def dot_def

lemma inv_diag4: "s \<noteq> 0 \<Longrightarrow> linalg_inv [[s,0,0,0],[0,s,0,0],[0,0,s,0],[0,0,0,s]] = Some [[1/s,0,0,0],[0,1/s,0,0],[0,0,1/s,0],[0,0,0,1/s]]"
  by (simp add: linalg_inv_def eye4S eliminate_def find_pivot_def Let_def upt_rec[of "Suc 0"] upt_rec[of "Suc (Suc 0)"] upt_rec[of "Suc (Suc (Suc 0))"])

lemma update_closed_form:
  fixes a b c d ts lt x y w h vx vy vw vh :: real
  defines "dt \<equiv> ts - lt"
  defines "a1 \<equiv> a + dt * c + dt * (b + dt * d) + dt / 100"
  defines "b1 \<equiv> b + dt * d"
  defines "c1 \<equiv> c + dt * d"
  defines "d1 \<equiv> d + dt / 100"
  assumes nz: "a1 + 1/10 \<noteq> 0"
  shows "KalmanBoxTracker_update
           \<lparr> trk_id = i, state = [x, y, w, h, vx, vy, vw, vh], covariance = block_cov a b c d,
             time_since_update = n, hit_streak = hs, hits = ht, age = ag, last_timestamp = lt,
             confidence = cf \<rparr> bbox ts =
         (None,
           \<lparr> trk_id = i,
             state = [x + dt * vx + a1 / (a1 + 1/10) * (bb_x bbox - (x + dt * vx)),
                      y + dt * vy + a1 / (a1 + 1/10) * (bb_y bbox - (y + dt * vy)),
                      w + dt * vw + a1 / (a1 + 1/10) * (bb_width bbox - (w + dt * vw)),
                      h + dt * vh + a1 / (a1 + 1/10) * (bb_height bbox - (h + dt * vh)),
                      vx + c1 / (a1 + 1/10) * (bb_x bbox - (x + dt * vx)),
                      vy + c1 / (a1 + 1/10) * (bb_y bbox - (y + dt * vy)),
                      vw + c1 / (a1 + 1/10) * (bb_width bbox - (w + dt * vw)),
                      vh + c1 / (a1 + 1/10) * (bb_height bbox - (h + dt * vh))],
             covariance = block_cov ((1 - a1 / (a1 + 1/10)) * a1) ((1 - a1 / (a1 + 1/10)) * b1)
                                    (c1 - c1 / (a1 + 1/10) * a1) (d1 - c1 / (a1 + 1/10) * b1),
             time_since_update = 0, hit_streak = hs + 1, hits = ht + 1, age = ag, last_timestamp = ts,
             confidence = max (cf * (9/10)) (bb_confidence bbox) \<rparr>)"
proof -
  have p1: "mat_add (mat_mul (mat_mul (transition_dt dt) (block_cov a b c d)) (mat_T (transition_dt dt))) (mat_scale dt process_noise)
     = block_cov a1 b1 c1 d1"
    unfolding a1_def b1_def c1_def d1_def
    by (simp add: transition_dt_eq process_noise_eq block_cov_def mat_ops upt8 algebra_simps)
  have ic: "mat_add (mat_mul (mat_mul measurement (block_cov a1 b1 c1 d1)) (mat_T measurement)) measurement_noise
     = [[a1 + 1/10,0,0,0],[0,a1 + 1/10,0,0],[0,0,a1 + 1/10,0],[0,0,0,a1 + 1/10]]"
    by (simp add: measurement_eq measurement_noise_eq block_cov_def mat_ops upt8 upt4)
  have kg: "mat_mul (mat_mul (block_cov a1 b1 c1 d1) (mat_T measurement))
              [[1/(a1 + 1/10),0,0,0],[0,1/(a1 + 1/10),0,0],[0,0,1/(a1 + 1/10),0],[0,0,0,1/(a1 + 1/10)]]
     = [[a1 / (a1 + 1/10),0,0,0],[0,a1 / (a1 + 1/10),0,0],[0,0,a1 / (a1 + 1/10),0],[0,0,0,a1 / (a1 + 1/10)],
        [c1 / (a1 + 1/10),0,0,0],[0,c1 / (a1 + 1/10),0,0],[0,0,c1 / (a1 + 1/10),0],[0,0,0,c1 / (a1 + 1/10)]]"
    by (simp add: measurement_eq block_cov_def mat_ops upt8 upt4)
  have st: "mat_vec (transition_dt dt) [x, y, w, h, vx, vy, vw, vh] =
            [x + dt * vx, y + dt * vy, w + dt * vw, h + dt * vh, vx, vy, vw, vh]"
    by (simp add: transition_dt_eq mat_ops algebra_simps)
  have hs: "mat_vec measurement [x', y', w', h', vx', vy', vw', vh'] = [x', y', w', h']" for x' y' w' h' vx' vy' vw' vh' :: real
    by (simp add: measurement_eq mat_ops)
  have cv: "mat_mul (mat_sub (eye 8) (mat_mul
        [[k1,0,0,0],[0,k1,0,0],[0,0,k1,0],[0,0,0,k1],[k2,0,0,0],[0,k2,0,0],[0,0,k2,0],[0,0,0,k2]] measurement))
        (block_cov a1 b1 c1 d1) = block_cov ((1 - k1) * a1) ((1 - k1) * b1) (c1 - k2 * a1) (d1 - k2 * b1)" for k1 k2 :: real
    by (simp add: measurement_eq eye8 block_cov_def mat_ops upt8 upt4 algebra_simps)
  have kv: "mat_vec [[k1,0,0,0],[0,k1,0,0],[0,0,k1,0],[0,0,0,k1],[k2,0,0,0],[0,k2,0,0],[0,0,k2,0],[0,0,0,k2]]
              [i1, i2, i3, i4] = [k1 * i1, k1 * i2, k1 * i3, k1 * i4, k2 * i1, k2 * i2, k2 * i3, k2 * i4]"
    for k1 k2 i1 i2 i3 i4 :: real
    by (simp add: mat_ops)
  show ?thesis
    unfolding KalmanBoxTracker_update_def Let_def
    by (simp add: dt_def[symmetric] p1 ic inv_diag4[OF nz] kg st hs cv kv vec_add_def vec_sub_def)
qed


lemma initial_covariance_block: "initial_covariance = block_cov 1 0 0 1000"
  by (simp add: initial_covariance_eq block_cov_def)

text \<open>Rules that evaluate the tracker on concrete tracks and boxes.\<close>

lemma get_state_literal:
  "get_state \<lparr> trk_id = i, state = [x, y, w, h, vx, vy, vw, vh], covariance = c,
               time_since_update = n, hit_streak = hs, hits = ht, age = ag, last_timestamp = lt,
               confidence = cf \<rparr> =
     \<lparr> bb_x = clip x 0 1, bb_y = clip y 0 1, bb_width = clip w (1/100) 1,
       bb_height = clip h (1/100) 1, bb_confidence = cf \<rparr>"
  by (simp add: get_state_def)

lemma iou_player_player:
  "compute_iou \<lparr> bb_x = 3 / 10, bb_y = 2 / 5, bb_width = 1 / 10, bb_height = 3 / 10, bb_confidence = c1 \<rparr>
      \<lparr> bb_x = 3 / 10, bb_y = 2 / 5, bb_width = 1 / 10, bb_height = 3 / 10, bb_confidence = c2 \<rparr> = 1"
proof -
  have r0: "fl64 (1 / 20) = 3602879701896397 / 72057594037927936"
    by (simp add: fl64_eval[of "-5"] rhe_def Let_def power_int_minus)
  have r1: "fl64 (90071992547409919 / 360287970189639680) = 1 / 4"
    by (simp add: fl64_eval[of "-3"] rhe_def Let_def power_int_minus)
  have r2: "fl64 (3 / 20) = 5404319552844595 / 36028797018963968"
    by (simp add: fl64_eval[of "-3"] rhe_def Let_def power_int_minus)
  have r3: "fl64 (45035996273704961 / 180143985094819840) = 1 / 4"
    by (simp add: fl64_eval[of "-2"] rhe_def Let_def power_int_minus)
  have r4: "fl64 (126100789566373889 / 360287970189639680) = 3152519739159347 / 9007199254740992"
    by (simp add: fl64_eval[of "-2"] rhe_def Let_def power_int_minus)
  have r5: "fl64 (99079191802150911 / 180143985094819840) = 2476979795053773 / 4503599627370496"
    by (simp add: fl64_eval[of "-1"] rhe_def Let_def power_int_minus)
  have r6: "fl64 (900719925474099 / 9007199254740992) = 900719925474099 / 9007199254740992"
    by (simp add: fl64_eval[of "-4"] rhe_def Let_def power_int_minus)
  have r7: "fl64 (1351079888211149 / 4503599627370496) = 1351079888211149 / 4503599627370496"
    by (simp add: fl64_eval[of "-2"] rhe_def Let_def power_int_minus)
  have r8: "fl64 (1216944576219100135364842529751 / 40564819207303340847894502572032) = 1080863910568919 / 36028797018963968"
    by (simp add: fl64_eval[of "-6"] rhe_def Let_def power_int_minus)
  have r9: "fl64 (3 / 100) = 1080863910568919 / 36028797018963968"
    by (simp add: fl64_eval[of "-6"] rhe_def Let_def power_int_minus)
  have r10: "fl64 (1080863910568919 / 18014398509481984) = 1080863910568919 / 18014398509481984"
    by (simp add: fl64_eval[of "-5"] rhe_def Let_def power_int_minus)
  have r11: "fl64 (1080863910568919 / 36028797018963968) = 1080863910568919 / 36028797018963968"
    by (simp add: fl64_eval[of "-6"] rhe_def Let_def power_int_minus)
  have r12: "fl64 (1) = 1"
    by (simp add: fl64_eval[of "0"] rhe_def Let_def power_int_minus)
  show ?thesis
    by (simp add: compute_iou_def compute_iou_fl_def Let_def r0 r1 r2 r3 r4 r5 r6 r7 r8 r9 r10 r11 r12)
qed

lemma iou_other_player:
  "compute_iou \<lparr> bb_x = 3 / 5, bb_y = 3 / 10, bb_width = 2 / 25, bb_height = 1 / 4, bb_confidence = c1 \<rparr>
      \<lparr> bb_x = 3 / 10, bb_y = 2 / 5, bb_width = 1 / 10, bb_height = 3 / 10, bb_confidence = c2 \<rparr> = 0"
proof -
  have r0: "fl64 (1 / 25) = 5764607523034235 / 144115188075855872"
    by (simp add: fl64_eval[of "-5"] rhe_def Let_def power_int_minus)
  have r1: "fl64 (403522526612396441 / 720575940379279360) = 1261007895663739 / 2251799813685248"
    by (simp add: fl64_eval[of "-1"] rhe_def Let_def power_int_minus)
  have r2: "fl64 (1 / 8) = 1 / 8"
    by (simp add: fl64_eval[of "-3"] rhe_def Let_def power_int_minus)
  have r3: "fl64 (7 / 40) = 3152519739159347 / 18014398509481984"
    by (simp add: fl64_eval[of "-3"] rhe_def Let_def power_int_minus)
  have r4: "fl64 (461168601842738791 / 720575940379279360) = 5764607523034235 / 9007199254740992"
    by (simp add: fl64_eval[of "-1"] rhe_def Let_def power_int_minus)
  have r5: "fl64 (17 / 40) = 7656119366529843 / 18014398509481984"
    by (simp add: fl64_eval[of "-2"] rhe_def Let_def power_int_minus)
  have r6: "fl64 (1 / 20) = 3602879701896397 / 72057594037927936"
    by (simp add: fl64_eval[of "-5"] rhe_def Let_def power_int_minus)
  have r7: "fl64 (90071992547409919 / 360287970189639680) = 1 / 4"
    by (simp add: fl64_eval[of "-3"] rhe_def Let_def power_int_minus)
  have r8: "fl64 (3 / 20) = 5404319552844595 / 36028797018963968"
    by (simp add: fl64_eval[of "-3"] rhe_def Let_def power_int_minus)
  have r9: "fl64 (45035996273704961 / 180143985094819840) = 1 / 4"
    by (simp add: fl64_eval[of "-2"] rhe_def Let_def power_int_minus)
  have r10: "fl64 (126100789566373889 / 360287970189639680) = 3152519739159347 / 9007199254740992"
    by (simp add: fl64_eval[of "-2"] rhe_def Let_def power_int_minus)
  have r11: "fl64 (99079191802150911 / 180143985094819840) = 2476979795053773 / 4503599627370496"
    by (simp add: fl64_eval[of "-1"] rhe_def Let_def power_int_minus)
  show ?thesis
    by (simp add: compute_iou_def compute_iou_fl_def Let_def r0 r1 r2 r3 r4 r5 r6 r7 r8 r9 r10 r11)
qed

lemmas eval_tracker = ByteTracker_init_def ByteTracker_update_def associate_tracks_def high_conf_def
  low_conf_def predict_all_def associate_def second_round_def Let_def KalmanBoxTracker_init_def
  tracking_data_of_def predict_snd get_state_literal clip_def iou_player_player iou_other_player
  argsort_def
  initial_covariance_block update_closed_form

lemmas eval_frames = first_matches_def second_matches_def frame_pairs_def matched_ids_def
  high_positions_def low_positions_def

text \<open>
  An instance with both rounds: the high-confidence detection overlaps no track, the
  low-confidence one (second in the input) is matched to track 0 in the second round.
\<close>

theorem frame_pairs_one_to_one_witness:
  "frame_pairs (snd (ByteTracker_update default_tracker [player_box] 0))
     [other_box, player_box \<lparr> bb_confidence := 1/2 \<rparr>] 1 = [(1, 0)] \<and>
   distinct (map snd (frame_pairs (snd (ByteTracker_update default_tracker [player_box] 0))
     [other_box, player_box \<lparr> bb_confidence := 1/2 \<rparr>] 1))"
proof -
  have e: "frame_pairs (snd (ByteTracker_update default_tracker [player_box] 0))
     [other_box, player_box \<lparr> bb_confidence := 1/2 \<rparr>] 1 = [(1, 0)]"
    by (simp add: eval_tracker eval_frames default_tracker_def player_box_def other_box_def)
  from frame_pairs_one_to_one[of "snd (ByteTracker_update default_tracker [player_box] 0)"
         "[other_box, player_box \<lparr> bb_confidence := 1/2 \<rparr>]" 1]
  have "distinct (map snd (frame_pairs (snd (ByteTracker_update default_tracker [player_box] 0))
     [other_box, player_box \<lparr> bb_confidence := 1/2 \<rparr>] 1))" by blast
  with e show ?thesis by blast
qed

section \<open>Identities\<close>

text \<open>
  C6: in a session without \<open>reset\<close>, started in a state whose active identities lie
  below the counter, the identities given to new tracks are the consecutive integers from
  the counter on, so each is greater than every identity given earlier and than every
  identity active at the start; the active identities are pairwise distinct; an identity
  below the counter that is not active is never active again; \<open>reset\<close> sets the
  counter back to 0.
\<close>

theorem track_identities:
  assumes "id_inv bt" and "Reset \<notin> set calls"
  shows "created_ids bt calls = [kbt_count bt .. kbt_count (run_calls bt calls) - 1] \<and>
         sorted_wrt (<) (created_ids bt calls) \<and>
         (\<forall>i \<in> set (ids bt). \<forall>j \<in> set (created_ids bt calls). i < j) \<and>
         distinct (ids (run_calls bt calls)) \<and>
         set (ids (run_calls bt calls)) \<subseteq> set (ids bt) \<union> set (created_ids bt calls) \<and>
         (\<forall>k. k < kbt_count bt \<and> k \<notin> set (ids bt) \<longrightarrow> k \<notin> set (ids (run_calls bt calls))) \<and>
         kbt_count (ByteTracker_reset (run_calls bt calls)) = 0"
proof -
  note r = run_calls_ids[OF assms]
  have c: "created_ids bt calls = [kbt_count bt .. kbt_count (run_calls bt calls) - 1]" using r by simp
  have s: "sorted_wrt (<) (created_ids bt calls)" unfolding c by (simp add: strict_sorted_iff)
  have g: "\<forall>i \<in> set (ids bt). \<forall>j \<in> set (created_ids bt calls). i < j"
    using assms(1) unfolding c by (auto simp: id_inv_def list_all_iff)
  have d: "distinct (ids (run_calls bt calls))"
    using r by (simp add: id_inv_def strict_sorted_iff)
  have n: "\<forall>k. k < kbt_count bt \<and> k \<notin> set (ids bt) \<longrightarrow> k \<notin> set (ids (run_calls bt calls))"
    using r unfolding c by auto
  have sub: "set (ids (run_calls bt calls)) \<subseteq> set (ids bt) \<union> set (created_ids bt calls)"
    using r by blast
  have z: "kbt_count (ByteTracker_reset (run_calls bt calls)) = 0"
    by (simp add: ByteTracker_reset_def)
  show ?thesis using c s g d sub n z by blast
qed


lemma first_frame_ids:
  "created_ids default_tracker [Update [player_box, other_box] 0] = [0, 1]"
  "ids (run_calls default_tracker [Update [player_box, other_box] 0]) = [0, 1]"
  by (simp_all add: eval_tracker default_tracker_def player_box_def other_box_def new_tracks_def ids_def)

theorem track_identities_witness:
  "id_inv default_tracker \<and> Reset \<notin> set [Update [player_box, other_box] 0] \<and>
   created_ids default_tracker [Update [player_box, other_box] 0] = [0, 1] \<and>
   ids (run_calls default_tracker [Update [player_box, other_box] 0]) = [0, 1] \<and>
   sorted_wrt (<) (created_ids default_tracker [Update [player_box, other_box] 0])"
proof -
  have h1: "id_inv default_tracker"
    by (simp add: id_inv_def ids_def default_tracker_def ByteTracker_init_def)
  have h2: "Reset \<notin> set [Update [player_box, other_box] 0]" by simp
  from track_identities[OF h1 h2]
  have "sorted_wrt (<) (created_ids default_tracker [Update [player_box, other_box] 0])" by blast
  with h1 h2 first_frame_ids show ?thesis by blast
qed

section \<open>Eviction\<close>

text \<open>
  C2: a track with \<open>time_since_update = 0\<close> that goes unmatched in N consecutive
  \<open>update\<close> calls is still active, with \<open>time_since_update = N\<close>, as long as
  N \<le> \<open>track_buffer\<close>, and is no longer active once N exceeds \<open>track_buffer\<close>, that
  is from N = \<open>track_buffer + 1\<close> on.
\<close>

theorem eviction_after_buffer:
  assumes "id_inv bt"
      and "t \<in> set (tracked_stracks bt)" and "trk_id t = k" and "time_since_update t = 0"
      and "0 \<le> track_buffer bt"
      and "missed_frames k bt frames"
  shows "if int (length frames) \<le> track_buffer bt
         then \<exists>t' \<in> set (tracked_stracks (run_frames bt frames)).
                 trk_id t' = k \<and> time_since_update t' = int (length frames)
         else k \<notin> set (ids (run_frames bt frames))"
  using miss_run[OF assms(1-4) _ assms(6)] assms(5) by auto

lemma short_session_0:
  "snd (ByteTracker_update short_buffer_tracker [player_box] 0) =
     \<lparr> track_thresh = 3/5, track_buffer = 1, match_thresh = 4/5, frame_rate = 30,
       tracked_stracks = [fst (KalmanBoxTracker_init 0 player_box 0)],
       lost_stracks = [], removed_stracks = [], frame_id = 1, total_tracks = 1, active_tracks = 0,
       kbt_count = 1 \<rparr>"
  by (simp add: eval_tracker short_buffer_tracker_def player_box_def)

lemma short_session_1:
  "ByteTracker_update
     \<lparr> track_thresh = 3/5, track_buffer = 1, match_thresh = 4/5, frame_rate = 30,
       tracked_stracks = [fst (KalmanBoxTracker_init 0 player_box 0)],
       lost_stracks = [], removed_stracks = [], frame_id = 1, total_tracks = 1, active_tracks = 0,
       kbt_count = 1 \<rparr> [] 1 =
   (Inr [],
     \<lparr> track_thresh = 3/5, track_buffer = 1, match_thresh = 4/5, frame_rate = 30,
       tracked_stracks = [(fst (KalmanBoxTracker_init 0 player_box 0))\<lparr> age := 2, time_since_update := 1 \<rparr>],
       lost_stracks = [], removed_stracks = [], frame_id = 2, total_tracks = 1, active_tracks = 0,
       kbt_count = 1 \<rparr>)"
  by (simp add: eval_tracker player_box_def)

lemma short_session_2:
  "ByteTracker_update
     \<lparr> track_thresh = 3/5, track_buffer = 1, match_thresh = 4/5, frame_rate = 30,
       tracked_stracks = [(fst (KalmanBoxTracker_init 0 player_box 0))\<lparr> age := 2, time_since_update := 1 \<rparr>],
       lost_stracks = [], removed_stracks = [], frame_id = 2, total_tracks = 1, active_tracks = 0,
       kbt_count = 1 \<rparr> [] 2 =
   (Inr [],
     \<lparr> track_thresh = 3/5, track_buffer = 1, match_thresh = 4/5, frame_rate = 30,
       tracked_stracks = [],
       lost_stracks = [], removed_stracks = [], frame_id = 3, total_tracks = 1, active_tracks = 0,
       kbt_count = 1 \<rparr>)"
  by (simp add: eval_tracker player_box_def)

lemma no_detections_no_match: "matched_ids bt [] timestamp = []"
proof -
  have "frame_pairs bt [] timestamp = []"
    using frame_pairs_range_dets[of bt "[]" timestamp] by simp
  then show ?thesis by (simp add: matched_ids_def)
qed

theorem eviction_after_buffer_witness:
  "id_inv (snd (ByteTracker_update short_buffer_tracker [player_box] 0)) \<and>
   fst (KalmanBoxTracker_init 0 player_box 0)
     \<in> set (tracked_stracks (snd (ByteTracker_update short_buffer_tracker [player_box] 0))) \<and>
   trk_id (fst (KalmanBoxTracker_init 0 player_box 0)) = 0 \<and>
   time_since_update (fst (KalmanBoxTracker_init 0 player_box 0)) = 0 \<and>
   0 \<le> track_buffer (snd (ByteTracker_update short_buffer_tracker [player_box] 0)) \<and>
   missed_frames 0 (snd (ByteTracker_update short_buffer_tracker [player_box] 0)) [([], 1), ([], 2)] \<and>
   0 \<in> set (ids (run_frames (snd (ByteTracker_update short_buffer_tracker [player_box] 0)) [([], 1)])) \<and>
   0 \<notin> set (ids (run_frames (snd (ByteTracker_update short_buffer_tracker [player_box] 0)) [([], 1), ([], 2)]))"
proof -
  define s where "s = snd (ByteTracker_update short_buffer_tracker [player_box] 0)"
  define t where "t = fst (KalmanBoxTracker_init 0 player_box 0)"
  have h1: "id_inv s" unfolding s_def short_session_0 by (simp add: id_inv_def ids_def KalmanBoxTracker_init_def)
  have h2: "t \<in> set (tracked_stracks s)" unfolding s_def t_def short_session_0 by simp
  have h3: "trk_id t = 0" "time_since_update t = 0" by (simp_all add: t_def KalmanBoxTracker_init_def)
  have h4: "0 \<le> track_buffer s" unfolding s_def short_session_0 by simp
  have h5: "missed_frames 0 s [([], 1), ([], 2)]"
    unfolding s_def short_session_0 by (simp add: no_detections_no_match short_session_1 short_session_2)
  have h6: "0 \<in> set (ids (run_frames s [([], 1)]))"
    unfolding s_def short_session_0 using h3(1) by (simp add: short_session_1 ids_def t_def)
  have c: "0 \<notin> set (ids (run_frames s [([], 1), ([], 2)]))"
    using eviction_after_buffer[OF h1 h2 h3(1) h3(2) h4 h5] h4
    unfolding s_def short_session_0 by simp
  show ?thesis using h1 h2 h3 h4 h5 h6 c unfolding s_def t_def by blast
qed

section \<open>predict\<close>

lemma predict_n_track:
  "snd (predict_n t tss) = t\<lparr> age := age t + int (length tss),
                              time_since_update := time_since_update t + int (length tss) \<rparr>"
proof (induction tss arbitrary: t)
  case Nil
  then show ?case by simp
next
  case (Cons ts tss)
  obtain box t1 where p: "KalmanBoxTracker_predict t ts = (box, t1)" by (cases "KalmanBoxTracker_predict t ts")
  have t1: "t1 = t\<lparr> age := age t + 1, time_since_update := time_since_update t + 1 \<rparr>"
    using predict_snd[of t ts] p by simp
  obtain boxes t2 where q: "predict_n t1 tss = (boxes, t2)" by (cases "predict_n t1 tss")
  have "t2 = t1\<lparr> age := age t1 + int (length tss),
                  time_since_update := time_since_update t1 + int (length tss) \<rparr>"
    using Cons[of t1] q by simp
  then show ?case using p q t1 by (simp add: algebra_simps)
qed

lemma predict_n_confidence:
  "map bb_confidence (fst (predict_n t tss)) = replicate (length tss) (confidence t * (95/100))"
proof (induction tss arbitrary: t)
  case Nil
  then show ?case by simp
next
  case (Cons ts tss)
  obtain box t1 where p: "KalmanBoxTracker_predict t ts = (box, t1)" by (cases "KalmanBoxTracker_predict t ts")
  have t1: "confidence t1 = confidence t" using predict_snd[of t ts] p by simp
  have b: "bb_confidence box = confidence t * (95/100)"
    using p by (auto simp: KalmanBoxTracker_predict_def Let_def)
  obtain boxes t2 where q: "predict_n t1 tss = (boxes, t2)" by (cases "predict_n t1 tss")
  show ?case using Cons[of t1] p q t1 b by simp
qed

lemma sorted_wrt_ge_replicate: "sorted_wrt (\<ge>) (replicate n (x::real))"
  by (induction n) auto

text \<open>
  C3, as the code has it: \<open>predict\<close> leaves the stored state, covariance and
  \<open>last_timestamp\<close> of the filter as they were, over one call, over any number of
  consecutive calls, and for every active track in the prediction step of the tracker's
  \<open>update\<close>; the transition applied to the stored state is only what the returned box
  is clamped from.
\<close>

theorem predict_keeps_stored_state:
  "state (snd (KalmanBoxTracker_predict t now)) = state t \<and>
   covariance (snd (KalmanBoxTracker_predict t now)) = covariance t \<and>
   last_timestamp (snd (KalmanBoxTracker_predict t now)) = last_timestamp t \<and>
   state (snd (predict_n t tss)) = state t \<and>
   map state (predict_all trks now) = map state trks \<and>
   bb_x (fst (KalmanBoxTracker_predict t now)) =
     clip (mat_vec (transition_dt (now - last_timestamp t)) (state t) ! 0) 0 1 \<and>
   bb_y (fst (KalmanBoxTracker_predict t now)) =
     clip (mat_vec (transition_dt (now - last_timestamp t)) (state t) ! 1) 0 1 \<and>
   bb_width (fst (KalmanBoxTracker_predict t now)) =
     clip (mat_vec (transition_dt (now - last_timestamp t)) (state t) ! 2) (1/100) 1 \<and>
   bb_height (fst (KalmanBoxTracker_predict t now)) =
     clip (mat_vec (transition_dt (now - last_timestamp t)) (state t) ! 3) (1/100) 1"
  by (simp add: predict_n_track predict_snd predict_all_def comp_def)
     (simp add: KalmanBoxTracker_predict_def Let_def)

text \<open>
  C3 as stated fails: after one update with a displaced detection the track has a
  velocity, and a later \<open>predict\<close> leaves the stored state different from the
  transition applied to it.
\<close>

lemma moving_track:
  "snd (KalmanBoxTracker_update (fst (KalmanBoxTracker_init 0 player_box 0)) shifted_box 1) =
     \<lparr> trk_id = 0,
       state = [800883 / 2502775, 2 / 5, 1 / 10, 3 / 10, 2000 / 100111, 0, 0, 0],
       covariance = block_cov (100101 / 1001110) (10000 / 100111) (10000 / 100111) (11200111 / 10011100),
       time_since_update = 0, hit_streak = 1, hits = 2, age = 1, last_timestamp = 1,
       confidence = 9 / 10 \<rparr>"
  by (simp add: KalmanBoxTracker_init_def initial_covariance_block update_closed_form
                player_box_def shifted_box_def)

theorem predict_advance_counterexample:
  "state (snd (KalmanBoxTracker_predict
      (snd (KalmanBoxTracker_update (fst (KalmanBoxTracker_init 0 player_box 0)) shifted_box 1)) 2))
   \<noteq> mat_vec (transition_dt (2 - last_timestamp
          (snd (KalmanBoxTracker_update (fst (KalmanBoxTracker_init 0 player_box 0)) shifted_box 1))))
        (state (snd (KalmanBoxTracker_update (fst (KalmanBoxTracker_init 0 player_box 0)) shifted_box 1)))"
  unfolding moving_track
  by (simp add: predict_snd transition_dt_eq mat_ops)


text \<open>
  C4, as the code has it: over consecutive \<open>predict\<close> calls with no update between
  them every returned box carries the stored confidence times 0.95, so the reported
  confidences are non-increasing (they are constant); the stored confidence is not
  changed.
\<close>

theorem predict_confidence_constant:
  "map bb_confidence (fst (predict_n t tss)) = replicate (length tss) (confidence t * (95/100)) \<and>
   sorted_wrt (\<ge>) (map bb_confidence (fst (predict_n t tss))) \<and>
   confidence (snd (predict_n t tss)) = confidence t"
  by (simp add: predict_n_confidence predict_n_track sorted_wrt_ge_replicate)

text \<open>
  C4 as stated fails: the second consecutive \<open>predict\<close> reports the stored confidence
  times 0.95, not times 0.95 squared.
\<close>

theorem predict_confidence_counterexample:
  "bb_confidence (fst (predict_n (fst (KalmanBoxTracker_init 0 player_box 0)) [1, 2]) ! 1)
     \<noteq> confidence (fst (KalmanBoxTracker_init 0 player_box 0)) * (95/100) ^ 2"
  by (simp add: KalmanBoxTracker_init_def KalmanBoxTracker_predict_def Let_def player_box_def power2_eq_square)

section \<open>hit\_streak\<close>

lemma predict_keeps_hit_streak: "hit_streak (snd (KalmanBoxTracker_predict t ts)) = hit_streak t"
  by (simp add: predict_snd)

lemma update_hit_streak: "hit_streak t \<le> hit_streak (snd (KalmanBoxTracker_update t b ts))"
  by (simp add: KalmanBoxTracker_update_def Let_def split: option.splits)

lemma confirmed_session:
  "run_frames default_tracker [([player_box], 0), ([player_box], 1), ([player_box], 2), ([player_box], 3)] =
     \<lparr> track_thresh = 3/5, track_buffer = 30, match_thresh = 4/5, frame_rate = 30,
       tracked_stracks =
         [\<lparr> trk_id = 0, state = [3/10, 2/5, 1/10, 3/10, 0, 0, 0, 0],
            covariance = block_cov (128564291 / 1591689750) (362505683 / 7958448750)
                                   (362505683 / 7958448750) (1179104677 / 19896121875),
            time_since_update = 0, hit_streak = 3, hits = 4, age = 4, last_timestamp = 3,
            confidence = 9/10 \<rparr>],
       lost_stracks = [], removed_stracks = [], frame_id = 4, total_tracks = 1, active_tracks = 1,
       kbt_count = 1 \<rparr>"
  by (simp add: eval_tracker default_tracker_def player_box_def)

text \<open>
  C1 on the code: after four frames with the same detection the track has
  \<open>hit_streak = 3\<close>; a fifth frame without detections leaves \<open>hit_streak\<close> at 3
  (with \<open>time_since_update = 1\<close>) and the track is still in the output of that frame.
\<close>

theorem hit_streak_survives_miss:
  "map hit_streak (tracked_stracks (run_frames default_tracker
      [([player_box], 0), ([player_box], 1), ([player_box], 2), ([player_box], 3)])) = [3] \<and>
   fst (ByteTracker_update (run_frames default_tracker
      [([player_box], 0), ([player_box], 1), ([player_box], 2), ([player_box], 3)]) [] 4) =
     Inr [\<lparr> td_track_id = 0, td_bounding_box = player_box, td_timestamp = 4 \<rparr>] \<and>
   map time_since_update (tracked_stracks (snd (ByteTracker_update (run_frames default_tracker
      [([player_box], 0), ([player_box], 1), ([player_box], 2), ([player_box], 3)]) [] 4))) = [1] \<and>
   map hit_streak (tracked_stracks (snd (ByteTracker_update (run_frames default_tracker
      [([player_box], 0), ([player_box], 1), ([player_box], 2), ([player_box], 3)]) [] 4))) = [3]"
  unfolding confirmed_session
  by (simp add: eval_tracker player_box_def)

section \<open>Path validation\<close>

lemma sibling_resolved: "resolve ''/app'' ''/app/uploads_evil/clip.mp4'' = ''/app/uploads_evil/clip.mp4''"
  by (simp add: resolve_def startswith_def join_segments_def Let_def)

text \<open>
  C7 on the code: with the allow-list \<open>[/app/uploads]\<close> the path
  \<open>/app/uploads_evil/clip.mp4\<close> does not lie under an allowed directory, yet it
  passes the validation and the file is opened.
\<close>

theorem sibling_directory_accepted:
  "\<not> path_under ''/app/uploads'' (resolve (cwd upload_env) ''/app/uploads_evil/clip.mp4'') \<and>
   load_video upload_env ''/app/uploads_evil/clip.mp4'' =
     ([Exists ''/app/uploads_evil/clip.mp4'', Open ''/app/uploads_evil/clip.mp4''], Inr (30, 900, 30))"
  by (simp add: upload_env_def load_video_def sibling_resolved path_under_def startswith_def Let_def)

lemma traversal_rejected:
  "load_video upload_env ''../../etc/passwd'' = ([], Inl Video_path_not_allowed)"
  by (simp add: upload_env_def load_video_def resolve_def path_under_def startswith_def join_segments_def Let_def)

section \<open>Job progress\<close>

lemma progress_constants:
  "fl64 (fl64 (1/10)) = fl64 (1/10)" "fl64 (fl64 (7/10)) = fl64 (7/10)"
  "fl64 (fl64 (1/10) + fl64 (7/10)) \<le> fl64 (9/10)" "fl64 1 = 1"
proof -
  have r0: "fl64 (1 / 10) = 3602879701896397 / 36028797018963968"
    by (simp add: fl64_eval[of "-4"] rhe_def Let_def power_int_minus)
  have r1: "fl64 (7 / 10) = 3152519739159347 / 4503599627370496"
    by (simp add: fl64_eval[of "-1"] rhe_def Let_def power_int_minus)
  have r2: "fl64 (9 / 10) = 8106479329266893 / 9007199254740992"
    by (simp add: fl64_eval[of "-1"] rhe_def Let_def power_int_minus)
  have r3: "fl64 (3602879701896397 / 36028797018963968) = 3602879701896397 / 36028797018963968"
    by (simp add: fl64_eval[of "-4"] rhe_def Let_def power_int_minus)
  have r4: "fl64 (3152519739159347 / 4503599627370496) = 3152519739159347 / 4503599627370496"
    by (simp add: fl64_eval[of "-1"] rhe_def Let_def power_int_minus)
  have r5: "fl64 (28823037615171173 / 36028797018963968) = 7205759403792793 / 9007199254740992"
    by (simp add: fl64_eval[of "-1"] rhe_def Let_def power_int_minus)
  show "fl64 (fl64 (1/10)) = fl64 (1/10)" by (simp add: r0 r1 r2 r3 r4 r5)
  show "fl64 (fl64 (7/10)) = fl64 (7/10)" by (simp add: r0 r1 r2 r3 r4 r5)
  show "fl64 (fl64 (1/10) + fl64 (7/10)) \<le> fl64 (9/10)" by (simp add: r0 r1 r2 r3 r4 r5)
  show "fl64 1 = 1" by (simp add: fl64_eval[of "0"] rhe_def Let_def)
qed

lemma progress_constant_bounds:
  "0 \<le> fl64 (1/10)" "fl64 (1/10) \<le> fl64 (9/10)" "fl64 (9/10) \<le> 1" "0 \<le> fl64 (9/10)"
proof -
  have r0: "fl64 (1 / 10) = 3602879701896397 / 36028797018963968"
    by (simp add: fl64_eval[of "-4"] rhe_def Let_def power_int_minus)
  have r1: "fl64 (7 / 10) = 3152519739159347 / 4503599627370496"
    by (simp add: fl64_eval[of "-1"] rhe_def Let_def power_int_minus)
  have r2: "fl64 (9 / 10) = 8106479329266893 / 9007199254740992"
    by (simp add: fl64_eval[of "-1"] rhe_def Let_def power_int_minus)
  show "0 \<le> fl64 (1/10)" by (simp add: r0)
  show "fl64 (1/10) \<le> fl64 (9/10)" by (simp add: r0 r2)
  show "fl64 (9/10) \<le> 1" by (simp add: r2)
  show "0 \<le> fl64 (9/10)" by (simp add: r2)
qed

lemma frame_progress_bounds:
  assumes "int i < n"
  shows "fl64 (1/10) \<le> frame_progress i n" "frame_progress i n \<le> fl64 (9/10)"
proof -
  define q where "q = fl64 (real i / real_of_int n)"
  define t where "t = fl64 (fl64 (7/10) * q)"
  have npos: "0 < n" using assms by linarith
  have frac: "0 \<le> real i / real_of_int n" "real i / real_of_int n \<le> 1"
    using npos assms by (simp_all add: divide_le_eq)
  have q0: "0 \<le> q" unfolding q_def using frac(1) by (rule fl64_nonneg)
  have "q \<le> fl64 1" unfolding q_def using frac(2) by (rule fl64_mono)
  then have q1: "q \<le> 1" by (simp add: progress_constants(4))
  have b0: "0 \<le> fl64 (7/10)" by (rule fl64_nonneg) simp
  have t0: "0 \<le> t" unfolding t_def by (rule fl64_nonneg) (rule mult_nonneg_nonneg[OF b0 q0])
  have "fl64 (7/10) * q \<le> fl64 (7/10) * 1" using q1 b0 by (rule mult_left_mono)
  then have "t \<le> fl64 (fl64 (7/10) * 1)" unfolding t_def by (rule fl64_mono)
  then have t1: "t \<le> fl64 (7/10)" by (simp add: progress_constants(2))
  have p: "frame_progress i n = fl64 (fl64 (1/10) + t)"
    by (simp add: frame_progress_def t_def q_def)
  have "fl64 (fl64 (1/10) + 0) \<le> fl64 (fl64 (1/10) + t)"
    using t0 by (intro fl64_mono) simp
  then show "fl64 (1/10) \<le> frame_progress i n" unfolding p by (simp add: progress_constants(1))
  have "fl64 (fl64 (1/10) + t) \<le> fl64 (fl64 (1/10) + fl64 (7/10))"
    using t1 by (intro fl64_mono) simp
  then show "frame_progress i n \<le> fl64 (9/10)" unfolding p using progress_constants(3) by linarith
qed

lemma frame_progress_mono:
  assumes "i \<le> j" and "0 < n"
  shows "frame_progress i n \<le> frame_progress j n"
proof -
  have "real i / real_of_int n \<le> real j / real_of_int n"
    using assms by (simp add: divide_right_mono)
  then have "fl64 (real i / real_of_int n) \<le> fl64 (real j / real_of_int n)" by (rule fl64_mono)
  moreover have "0 \<le> fl64 (7/10)" by (rule fl64_nonneg) simp
  ultimately have "fl64 (7/10) * fl64 (real i / real_of_int n) \<le> fl64 (7/10) * fl64 (real j / real_of_int n)"
    by (rule mult_left_mono)
  then have "fl64 (fl64 (7/10) * fl64 (real i / real_of_int n))
             \<le> fl64 (fl64 (7/10) * fl64 (real j / real_of_int n))" by (rule fl64_mono)
  then show ?thesis unfolding frame_progress_def by (intro fl64_mono) simp
qed

lemma process_frames_inv:
  assumes "written \<noteq> []" and "last written = status" and "sorted (map progress written)"
      and "\<forall>s\<in>set written. 0 \<le> progress s \<and> progress s \<le> fl64 (9/10) \<and> stage s \<noteq> FAILED"
      and "sorted idxs" and "\<forall>i\<in>set idxs. int i < n"
      and "\<forall>i\<in>set idxs. progress status \<le> frame_progress i n"
      and "process_frames oc n idxs status written = (r, st, w)"
  shows "w \<noteq> [] \<and> last w = st \<and> sorted (map progress w) \<and>
         (\<forall>s\<in>set w. 0 \<le> progress s \<and> progress s \<le> fl64 (9/10) \<and> stage s \<noteq> FAILED)"
  using assms
proof (induction idxs arbitrary: status written)
  case Nil
  then show ?case by auto
next
  case (Cons i rest)
  define status1 where "status1 = status\<lparr> progress := frame_progress i n \<rparr>"
  define written1 where "written1 = written @ [status1]"
  have npos: "0 < n" and ilt: "int i < n" using Cons.prems(6) by auto
  have p1: "progress status1 = frame_progress i n" by (simp add: status1_def)
  have r1: "0 \<le> progress status1" "progress status1 \<le> fl64 (9/10)"
    unfolding p1 using frame_progress_bounds[OF ilt] progress_constant_bounds(1) by simp_all
  have sin: "status \<in> set written" using Cons.prems(1,2) by (metis last_in_set)
  have st1: "stage status1 \<noteq> FAILED" using Cons.prems(4) sin by (simp add: status1_def)
  have le_last: "\<forall>s\<in>set written. progress s \<le> progress status"
  proof
    fix s assume "s \<in> set written"
    then obtain j where j: "j < length written" "written ! j = s" by (auto simp: in_set_conv_nth)
    have "map progress written ! j \<le> map progress written ! (length written - 1)"
      using Cons.prems(3) j(1) by (intro sorted_nth_mono) auto
    then show "progress s \<le> progress status"
      using j Cons.prems(1,2) by (simp add: last_conv_nth)
  qed
  have ps: "progress status \<le> progress status1" using Cons.prems(7) p1 by simp
  have a1: "written1 \<noteq> []" "last written1 = status1" by (simp_all add: written1_def)
  have a3: "sorted (map progress written1)"
    unfolding written1_def using Cons.prems(3) le_last ps by (auto simp: sorted_append)
  have a4: "\<forall>s\<in>set written1. 0 \<le> progress s \<and> progress s \<le> fl64 (9/10) \<and> stage s \<noteq> FAILED"
    unfolding written1_def using Cons.prems(4) r1 st1 by auto
  have a5: "sorted rest" "\<forall>j\<in>set rest. int j < n" using Cons.prems(5,6) by auto
  have a7: "\<forall>j\<in>set rest. progress status1 \<le> frame_progress j n"
  proof
    fix j assume "j \<in> set rest"
    then have "i \<le> j" using Cons.prems(5) by auto
    then show "progress status1 \<le> frame_progress j n"
      unfolding p1 using npos by (rule frame_progress_mono)
  qed
  show ?case
  proof (cases "oc i")
    case Frame_ok
    then have "process_frames oc n rest status1 written1 = (r, st, w)"
      using Cons.prems(8) by (simp add: status1_def written1_def Let_def)
    from Cons.IH[OF a1 a3 a4 a5 a7 this] show ?thesis .
  next
    case Read_failed
    then have "st = status1" "w = written1"
      using Cons.prems(8) by (auto simp: status1_def written1_def Let_def)
    then show ?thesis using a1 a3 a4 by simp
  next
    case Frame_raises
    then have "st = status1" "w = written1"
      using Cons.prems(8) by (auto simp: status1_def written1_def Let_def)
    then show ?thesis using a1 a3 a4 by simp
  qed
qed

text \<open>
  The statuses of a job: a run \<open>pre\<close> of statuses with non-decreasing progress in
  \<open>[0,1]\<close>, none of them FAILED, and then nothing more or the status of the handler.
\<close>

lemma process_video_shape:
  "\<exists>pre. pre \<noteq> [] \<and> sorted (map progress pre) \<and>
         (\<forall>s\<in>set pre. 0 \<le> progress s \<and> progress s \<le> 1 \<and> stage s \<noteq> FAILED) \<and>
         (process_video script = pre @ [job_failed (last pre)] \<or> process_video script = pre)"
proof -
  define status0 where "status0 = \<lparr> stage = QUEUED, progress = 0, status_error = None \<rparr>"
  define status1 where "status1 = status0\<lparr> stage := DETECTING, progress := fl64 (1/10) \<rparr>"
  note c = progress_constant_bounds
  show ?thesis
  proof (cases "load_raises script")
    case True
    then have "process_video script = [status0] @ [job_failed (last [status0])]"
      by (simp add: process_video_def status0_def Let_def)
    moreover have "sorted (map progress [status0])"
        "\<forall>s\<in>set [status0]. 0 \<le> progress s \<and> progress s \<le> 1 \<and> stage s \<noteq> FAILED"
      by (simp_all add: status0_def)
    ultimately show ?thesis by blast
  next
    case False
    note nl = False
    have b: "sorted (map progress [status0, status1])"
            "\<forall>s\<in>set [status0, status1]. 0 \<le> progress s \<and> progress s \<le> fl64 (9/10) \<and> stage s \<noteq> FAILED"
      using c by (simp_all add: status0_def status1_def)
    show ?thesis
    proof (cases "setup_raises script")
      case True
      then have "process_video script = [status0, status1] @ [job_failed (last [status0, status1])]"
        using nl by (simp add: process_video_def status0_def status1_def Let_def)
      moreover have "\<forall>s\<in>set [status0, status1]. 0 \<le> progress s \<and> progress s \<le> 1 \<and> stage s \<noteq> FAILED"
        using b(2) c(3) by auto
      ultimately show ?thesis using b(1) by blast
    next
      case False
      note ns = False
      obtain r st w where pf: "process_frames (frame_outcomes script) (processing_frames script)
                         [0..<nat (processing_frames script)] status1 [status0, status1] = (r, st, w)"
        by (cases "process_frames (frame_outcomes script) (processing_frames script)
                         [0..<nat (processing_frames script)] status1 [status0, status1]") auto
      have i7: "\<forall>i\<in>set [0..<nat (processing_frames script)].
                  progress status1 \<le> frame_progress i (processing_frames script)"
      proof
        fix i assume "i \<in> set [0..<nat (processing_frames script)]"
        then have "int i < processing_frames script" by auto
        from frame_progress_bounds(1)[OF this]
        show "progress status1 \<le> frame_progress i (processing_frames script)"
          by (simp add: status1_def)
      qed
      have inv: "w \<noteq> [] \<and> last w = st \<and> sorted (map progress w) \<and>
         (\<forall>s\<in>set w. 0 \<le> progress s \<and> progress s \<le> fl64 (9/10) \<and> stage s \<noteq> FAILED)"
        by (rule process_frames_inv[OF _ _ b(1) b(2) _ _ i7 pf]) auto
      have w1: "\<forall>s\<in>set w. 0 \<le> progress s \<and> progress s \<le> 1 \<and> stage s \<noteq> FAILED"
        using inv c(3) by auto
      show ?thesis
      proof (cases r)
        case True
        then have "process_video script = w @ [job_failed (last w)]"
          using nl ns pf inv unfolding process_video_def Let_def status0_def[symmetric] status1_def[symmetric]
          by simp
        then show ?thesis using inv w1 by blast
      next
        case False
        note nr = False
        define status3 where "status3 = st\<lparr> stage := ENCODING, progress := fl64 (9/10) \<rparr>"
        define status4 where "status4 = status3\<lparr> stage := COMPLETED, progress := 1 \<rparr>"
        have p3: "progress status3 = fl64 (9/10)" "stage status3 = ENCODING"
          by (simp_all add: status3_def)
        have p4: "progress status4 = 1" "stage status4 = COMPLETED"
          by (simp_all add: status4_def)
        have s3: "sorted (map progress (w @ [status3]))"
          using inv p3 by (auto simp: sorted_append)
        have r3: "\<forall>s\<in>set (w @ [status3]). 0 \<le> progress s \<and> progress s \<le> 1 \<and> stage s \<noteq> FAILED"
          using w1 p3 c by auto
        have s4: "sorted (map progress (w @ [status3, status4]))"
          using inv p3 p4 c(3) by (auto simp: sorted_append)
        have r4: "\<forall>s\<in>set (w @ [status3, status4]). 0 \<le> progress s \<and> progress s \<le> 1 \<and> stage s \<noteq> FAILED"
          using w1 p3 p4 c by auto
        have pv: "process_video script =
                   (if finalize_raises script \<or> metrics_raise script
                    then (w @ [status3]) @ [job_failed status3]
                    else if response_raises script
                         then (w @ [status3, status4]) @ [job_failed status4]
                         else w @ [status3, status4])"
          using nl ns pf nr
          unfolding process_video_def Let_def status0_def[symmetric] status1_def[symmetric]
          by (simp add: status3_def status4_def)
        consider (f) "process_video script = (w @ [status3]) @ [job_failed (last (w @ [status3]))]"
          | (l) "process_video script = (w @ [status3, status4]) @ [job_failed (last (w @ [status3, status4]))]"
          | (ok) "process_video script = w @ [status3, status4]"
          using pv by (auto split: if_splits)
        then show ?thesis
        proof cases
          case f
          moreover have "w @ [status3] \<noteq> []" by simp
          ultimately show ?thesis using s3 r3 by blast
        next
          case l
          moreover have "w @ [status3, status4] \<noteq> []" by simp
          ultimately show ?thesis using s4 r4 by blast
        next
          case ok
          moreover have "w @ [status3, status4] \<noteq> []" by simp
          ultimately show ?thesis using s4 r4 by blast
        qed
      qed
    qed
  qed
qed

text \<open>
  C8: the progress values written to a job's status are non-decreasing and lie in
  \<open>[0,1]\<close>; no status is written after the one that sets the stage to FAILED, and that
  one carries the progress of the status before it.
\<close>

theorem progress_monotone:
  "sorted (map progress (process_video script)) \<and>
   (\<forall>s \<in> set (process_video script). 0 \<le> progress s \<and> progress s \<le> 1) \<and>
   (\<forall>i. Suc i < length (process_video script) \<longrightarrow>
      stage (process_video script ! i) \<noteq> FAILED \<and>
      (stage (process_video script ! Suc i) = FAILED \<longrightarrow>
         progress (process_video script ! Suc i) = progress (process_video script ! i)))"
proof -
  obtain pre where pre: "pre \<noteq> []" "sorted (map progress pre)"
      "\<forall>s\<in>set pre. 0 \<le> progress s \<and> progress s \<le> 1 \<and> stage s \<noteq> FAILED"
      "process_video script = pre @ [job_failed (last pre)] \<or> process_video script = pre"
    using process_video_shape[of script] by blast
  define log where "log = process_video script"
  have lp: "last pre \<in> set pre" using pre(1) by simp
  have pf: "progress (job_failed (last pre)) = progress (last pre)" by (simp add: job_failed_def)
  have le_last: "\<forall>s\<in>set pre. progress s \<le> progress (last pre)"
  proof
    fix s assume "s \<in> set pre"
    then obtain j where j: "j < length pre" "pre ! j = s" by (auto simp: in_set_conv_nth)
    have "map progress pre ! j \<le> map progress pre ! (length pre - 1)"
      using pre(2) j(1) by (intro sorted_nth_mono) auto
    then show "progress s \<le> progress (last pre)"
      using j pre(1) by (simp add: last_conv_nth)
  qed
  have c1: "sorted (map progress log)"
    using pre(4) pre(2) le_last pf unfolding log_def by (auto simp: sorted_append)
  have c2: "\<forall>s \<in> set log. 0 \<le> progress s \<and> progress s \<le> 1"
    using pre(4) pre(3) lp pf unfolding log_def by auto
  have c3: "\<forall>i. Suc i < length log \<longrightarrow>
      stage (log ! i) \<noteq> FAILED \<and>
      (stage (log ! Suc i) = FAILED \<longrightarrow> progress (log ! Suc i) = progress (log ! i))"
  proof (intro allI impI)
    fix i assume si: "Suc i < length log"
    show "stage (log ! i) \<noteq> FAILED \<and>
      (stage (log ! Suc i) = FAILED \<longrightarrow> progress (log ! Suc i) = progress (log ! i))"
    proof (cases "Suc i < length pre")
      case True
      then have "log ! i = pre ! i" "log ! Suc i = pre ! Suc i"
        using pre(4) unfolding log_def by (auto simp: nth_append)
      then show ?thesis using pre(3) True by simp
    next
      case False
      then have lg: "log = pre @ [job_failed (last pre)]" and e: "Suc i = length pre"
        using pre(4) si unfolding log_def by auto
      have a: "log ! i = last pre" unfolding lg using e pre(1)
        by (metis diff_Suc_1 last_conv_nth lessI nth_append)
      have b: "log ! Suc i = job_failed (last pre)" unfolding lg using e by simp
      show ?thesis unfolding a b using pre(3) lp pf by simp
    qed
  qed
  show ?thesis using c1 c2 c3 unfolding log_def by blast
qed

lemma frame_progress_values:
  "frame_progress 0 4 = 3602879701896397 / 36028797018963968 \<and> frame_progress 1 4 = 2476979795053773 / 9007199254740992 \<and> frame_progress 2 4 = 2026619832316723 / 4503599627370496 \<and>
   frame_progress 0 1 = 3602879701896397 / 36028797018963968 \<and> fl64 (1 / 10) = 3602879701896397 / 36028797018963968 \<and> fl64 (9 / 10) = 8106479329266893 / 9007199254740992"
proof -
  have r0: "fl64 (1 / 10) = 3602879701896397 / 36028797018963968"
    by (simp add: fl64_eval[of "-4"] rhe_def Let_def power_int_minus)
  have r1: "fl64 (7 / 10) = 3152519739159347 / 4503599627370496"
    by (simp add: fl64_eval[of "-1"] rhe_def Let_def power_int_minus)
  have r2: "fl64 (9 / 10) = 8106479329266893 / 9007199254740992"
    by (simp add: fl64_eval[of "-1"] rhe_def Let_def power_int_minus)
  have r3: "fl64 (3602879701896397 / 36028797018963968) = 3602879701896397 / 36028797018963968"
    by (simp add: fl64_eval[of "-4"] rhe_def Let_def power_int_minus)
  have r4: "fl64 (1 / 4) = 1 / 4"
    by (simp add: fl64_eval[of "-2"] rhe_def Let_def power_int_minus)
  have r5: "fl64 (3152519739159347 / 18014398509481984) = 3152519739159347 / 18014398509481984"
    by (simp add: fl64_eval[of "-3"] rhe_def Let_def power_int_minus)
  have r6: "fl64 (9907919180215091 / 36028797018963968) = 2476979795053773 / 9007199254740992"
    by (simp add: fl64_eval[of "-2"] rhe_def Let_def power_int_minus)
  have r7: "fl64 (1 / 2) = 1 / 2"
    by (simp add: fl64_eval[of "-1"] rhe_def Let_def power_int_minus)
  have r8: "fl64 (3152519739159347 / 9007199254740992) = 3152519739159347 / 9007199254740992"
    by (simp add: fl64_eval[of "-2"] rhe_def Let_def power_int_minus)
  have r9: "fl64 (16212958658533785 / 36028797018963968) = 2026619832316723 / 4503599627370496"
    by (simp add: fl64_eval[of "-2"] rhe_def Let_def power_int_minus)
  show ?thesis
    by (simp add: frame_progress_def fl64_zero r0 r1 r2 r3 r4 r5 r6 r7 r8 r9)
qed

lemma failing_script_log:
  "process_video failing_script =
     [\<lparr> stage = QUEUED, progress = 0, status_error = None \<rparr>,
      \<lparr> stage = DETECTING, progress = 3602879701896397 / 36028797018963968, status_error = None \<rparr>,
      \<lparr> stage = DETECTING, progress = 3602879701896397 / 36028797018963968, status_error = None \<rparr>,
      \<lparr> stage = DETECTING, progress = 2476979795053773 / 9007199254740992, status_error = None \<rparr>,
      \<lparr> stage = DETECTING, progress = 2026619832316723 / 4503599627370496, status_error = None \<rparr>,
      \<lparr> stage = FAILED, progress = 2026619832316723 / 4503599627370496, status_error = Some ''error'' \<rparr>]"
  using frame_progress_values
  by (simp add: process_video_def failing_script_def Let_def job_failed_def upt4)

lemma late_failing_script_log:
  "process_video late_failing_script =
     [\<lparr> stage = QUEUED, progress = 0, status_error = None \<rparr>,
      \<lparr> stage = DETECTING, progress = 3602879701896397 / 36028797018963968, status_error = None \<rparr>,
      \<lparr> stage = DETECTING, progress = 3602879701896397 / 36028797018963968, status_error = None \<rparr>,
      \<lparr> stage = ENCODING, progress = 8106479329266893 / 9007199254740992, status_error = None \<rparr>,
      \<lparr> stage = COMPLETED, progress = 1, status_error = None \<rparr>,
      \<lparr> stage = FAILED, progress = 1, status_error = Some ''error'' \<rparr>]"
  using frame_progress_values
  by (simp add: process_video_def late_failing_script_def Let_def job_failed_def)

theorem progress_monotone_witness:
  "Suc 4 < length (process_video failing_script) \<and>
   stage (process_video failing_script ! Suc 4) = FAILED \<and>
   progress (process_video failing_script ! Suc 4) = progress (process_video failing_script ! 4) \<and>
   progress (process_video failing_script ! 4) = 2026619832316723 / 4503599627370496 \<and>
   Suc 4 < length (process_video late_failing_script) \<and>
   stage (process_video late_failing_script ! 4) = COMPLETED \<and>
   stage (process_video late_failing_script ! Suc 4) = FAILED \<and>
   progress (process_video late_failing_script ! Suc 4) = progress (process_video late_failing_script ! 4) \<and>
   progress (process_video late_failing_script ! 4) = 1"
proof -
  have l: "Suc 4 < length (process_video failing_script)" by (simp add: failing_script_log)
  have f: "stage (process_video failing_script ! Suc 4) = FAILED" by (simp add: failing_script_log)
  have p: "progress (process_video failing_script ! 4) = 2026619832316723 / 4503599627370496"
    by (simp add: failing_script_log)
  have l': "Suc 4 < length (process_video late_failing_script)" by (simp add: late_failing_script_log)
  have c': "stage (process_video late_failing_script ! 4) = COMPLETED"
    by (simp add: late_failing_script_log)
  have f': "stage (process_video late_failing_script ! Suc 4) = FAILED"
    by (simp add: late_failing_script_log)
  have p': "progress (process_video late_failing_script ! 4) = 1"
    by (simp add: late_failing_script_log)
  from progress_monotone[of failing_script] l f
  have e: "progress (process_video failing_script ! Suc 4) = progress (process_video failing_script ! 4)"
    by blast
  from progress_monotone[of late_failing_script] l' f'
  have e': "progress (process_video late_failing_script ! Suc 4)
            = progress (process_video late_failing_script ! 4)"
    by blast
  show ?thesis using l f p e l' c' f' p' e' by blast
qed

end
